theory Spec2Isabelle
  imports Complex_Main "HOL-Library.Multiset"
begin

section \<open>Data model: the DataFrame that main.py threads through its pipeline\<close>

text \<open>
  \<^verbatim>\<open>main.py\<close> holds every uploaded file in a pandas DataFrame \<^verbatim>\<open>df\<close> and
  rebinds it after each step. A DataFrame is column oriented: an ordered list of labelled,
  typed columns over a common row index. The two column kinds that matter to the script
  are the ones \<^verbatim>\<open>select_dtypes(include=["number"])\<close> separates: numeric
  columns (int64/float64) and all others (dtype object: text). A missing cell (NaN, None)
  is \<open>None\<close>.

  The type \<open>'a\<close> is the type of the numbers a cell can hold: the float64 and int64 values,
  NaN apart. Nothing is assumed about it; what the script has the libraries compute on
  numbers is taken from a \<open>library\<close> (below). A text is held as its UTF-8 bytes.

  A column label is a text, or a label that is no text (a number in the header row of a
  spreadsheet), kept by its printed form, or the missing label NaN.
\<close>

datatype label = Text string | Other string | Missing

datatype 'a coldata = NumCol "'a option list" | ObjCol "string option list"

record 'a column =
  cname :: label
  cdata :: "'a coldata"

text \<open>\<open>nrows\<close> is the length of the row index; it exists also when there is no column.\<close>

record 'a dataframe =
  cols :: "'a column list"
  nrows :: nat

datatype 'a cell = NumCell "'a option" | ObjCell "string option"

text \<open>
  The exceptions and failures: \<^verbatim>\<open>KeyError\<close> carries the labels that were not found;
  \<open>UnsupportedFormat\<close> and \<open>ParseError\<close> are the failures of loading and exporting.
\<close>

datatype error =
  KeyError "label list" | AttributeError | ValueError | UnsupportedFormat | ParseError

text \<open>
  What the script takes from pandas, NumPy and Python and this theory does not spell out:
  \<^item> \<open>np_mean\<close>: the float64 mean of a non-empty list of numbers, \<open>None\<close> when it is NaN;
  \<^item> \<open>py_lower\<close>: \<^verbatim>\<open>str.lower\<close> on a text that has characters outside ASCII;
  \<^item> \<open>parse_number\<close>, \<open>format_number\<close>: the number a field of a file stands for, if any,
    and the text written for a number;
  \<^item> \<open>mangle_names\<close>: the names a loader gives to the columns under a header row;
  \<^item> \<open>within_tolerance\<close>: two numbers differ by at most 1e-9.
\<close>

record 'a library =
  np_mean :: "'a list \<Rightarrow> 'a option"
  py_lower :: "string \<Rightarrow> string"
  parse_number :: "string \<Rightarrow> 'a option"
  format_number :: "'a \<Rightarrow> string"
  mangle_names :: "string list \<Rightarrow> string list"
  within_tolerance :: "'a \<Rightarrow> 'a \<Rightarrow> bool"

definition columns :: "'a dataframe \<Rightarrow> label list" where
  "columns df = map cname (cols df)"

fun cell_at :: "'a coldata \<Rightarrow> nat \<Rightarrow> 'a cell" where
  "cell_at (NumCol xs) i = NumCell (xs ! i)"
| "cell_at (ObjCol xs) i = ObjCell (xs ! i)"

fun is_number :: "'a coldata \<Rightarrow> bool" where
  "is_number (NumCol xs) = True"
| "is_number (ObjCol xs) = False"

fun is_text :: "label \<Rightarrow> bool" where
  "is_text (Text s) = True"
| "is_text (Other s) = False"
| "is_text Missing = False"

text \<open>\<^verbatim>\<open>DataFrame.empty\<close>: some axis has length 0.\<close>

definition empty_df :: "'a dataframe \<Rightarrow> bool" where
  "empty_df df = (cols df = [] \<or> nrows df = 0)"

subsection \<open>Rows and positional selection\<close>

definition row_at :: "'a dataframe \<Rightarrow> nat \<Rightarrow> 'a cell list" where
  "row_at df i = map (\<lambda>c. cell_at (cdata c) i) (cols df)"

definition rows_of :: "'a dataframe \<Rightarrow> 'a cell list list" where
  "rows_of df = map (row_at df) [0..<nrows df]"

text \<open>\<^verbatim>\<open>take\<close>: the rows at the given positions, in that order.\<close>

fun take_data :: "nat list \<Rightarrow> 'a coldata \<Rightarrow> 'a coldata" where
  "take_data idx (NumCol xs) = NumCol (map (\<lambda>i. xs ! i) idx)"
| "take_data idx (ObjCol xs) = ObjCol (map (\<lambda>i. xs ! i) idx)"

definition take_rows :: "nat list \<Rightarrow> 'a dataframe \<Rightarrow> 'a dataframe" where
  "take_rows idx df =
     \<lparr>cols = map (\<lambda>c. c\<lparr>cdata := take_data idx (cdata c)\<rparr>) (cols df), nrows = length idx\<rparr>"

text \<open>
  Indexing with a boolean mask, \<^verbatim>\<open>df[mask]\<close>: pandas takes the positions where the
  mask is true (\<^verbatim>\<open>mask.nonzero()\<close>).
\<close>

definition nonzero :: "bool list \<Rightarrow> nat list" where
  "nonzero bs = filter (\<lambda>i. bs ! i) [0..<length bs]"

definition getitem_mask :: "'a dataframe \<Rightarrow> bool list \<Rightarrow> 'a dataframe" where
  "getitem_mask df bs = take_rows (nonzero bs) df"

section \<open>Remove Duplicates (main.py line 123: \<^verbatim>\<open>df = df.drop_duplicates()\<close>)\<close>

text \<open>
  \<^verbatim>\<open>duplicated(keep="first")\<close> marks a row that equals an earlier row; two missing
  cells of the same column count as equal. \<open>seen\<close> holds the rows met so far.
\<close>

fun duplicated_from :: "'b list \<Rightarrow> 'b list \<Rightarrow> bool list" where
  "duplicated_from seen [] = []"
| "duplicated_from seen (r # rs) = (r \<in> set seen) # duplicated_from (r # seen) rs"

definition duplicated :: "'a dataframe \<Rightarrow> bool list" where
  "duplicated df = (if empty_df df then [] else duplicated_from [] (rows_of df))"

text \<open>
  \<^verbatim>\<open>drop_duplicates\<close>: \<^verbatim>\<open>if self.empty: return self.copy()\<close>, else
  \<^verbatim>\<open>self[-self.duplicated()]\<close>.
\<close>

definition drop_duplicates :: "'a dataframe \<Rightarrow> 'a dataframe" where
  "drop_duplicates df =
     (if empty_df df then df else getitem_mask df (map Not (duplicated df)))"

section \<open>Fill Missing Values (main.py lines 126-127)\<close>

text \<open>
  \<^verbatim>\<open>numeric_cols = df.select_dtypes(include=["number"]).columns\<close>
  \<^verbatim>\<open>df[numeric_cols] = df[numeric_cols].fillna(df[numeric_cols].mean())\<close>

  The frame \<^verbatim>\<open>df[numeric_cols]\<close> holds numeric columns only; it is kept as a list of
  labelled numeric columns. The labels of a loaded frame are distinct (\<^verbatim>\<open>read_csv\<close>
  and \<^verbatim>\<open>read_excel\<close> rename repeated headers), and this step runs before any renaming.
\<close>

type_synonym 'a numframe = "(label \<times> 'a option list) list"

definition select_dtypes_number :: "'a dataframe \<Rightarrow> label list" where
  "select_dtypes_number df = map cname (filter (\<lambda>c. is_number (cdata c)) (cols df))"

fun numeric_named :: "label \<Rightarrow> 'a column \<Rightarrow> 'a numframe" where
  "numeric_named k c =
     (case cdata c of NumCol xs \<Rightarrow> (if cname c = k then [(k, xs)] else []) | ObjCol ys \<Rightarrow> [])"

definition getitem_numeric :: "'a dataframe \<Rightarrow> label list \<Rightarrow> 'a numframe" where
  "getitem_numeric df keys = concat (map (\<lambda>k. concat (map (numeric_named k) (cols df))) keys)"

text \<open>\<^verbatim>\<open>dropna\<close>: the values that are present.\<close>

fun dropna :: "'b option list \<Rightarrow> 'b list" where
  "dropna [] = []"
| "dropna (None # xs) = dropna xs"
| "dropna (Some v # xs) = v # dropna xs"

text \<open>
  \<^verbatim>\<open>Series.mean()\<close> skips missing values (\<^verbatim>\<open>skipna=True\<close>): it is the float64
  mean of the values present, as the library computes it (rounded, infinite on overflow,
  NaN for the mean of both infinities); the mean of no value at all is NaN, the missing
  marker itself.
\<close>

definition mean_series :: "'a library \<Rightarrow> 'a option list \<Rightarrow> 'a option" where
  "mean_series L xs = (let vs = dropna xs in if vs = [] then None else np_mean L vs)"

definition mean_df :: "'a library \<Rightarrow> 'a numframe \<Rightarrow> (label \<times> 'a option) list" where
  "mean_df L nf = map (\<lambda>(k, xs). (k, mean_series L xs)) nf"

text \<open>
  \<^verbatim>\<open>Series.fillna(v)\<close> puts \<open>v\<close> in every missing cell; filling with NaN changes
  nothing. \<^verbatim>\<open>DataFrame.fillna(value)\<close> with a Series fills each column with the
  entry of its own label, and leaves a column without entry as it is.
\<close>

definition fillna_series :: "'a option \<Rightarrow> 'a option list \<Rightarrow> 'a option list" where
  "fillna_series v xs = map (\<lambda>x. case x of None \<Rightarrow> v | Some y \<Rightarrow> Some y) xs"

definition fillna :: "'a numframe \<Rightarrow> (label \<times> 'a option) list \<Rightarrow> 'a numframe" where
  "fillna nf val =
     map (\<lambda>(k, xs). case map_of val k of None \<Rightarrow> (k, xs) | Some v \<Rightarrow> (k, fillna_series v xs)) nf"

text \<open>\<^verbatim>\<open>df[k] = series\<close>: replaces the column labelled \<open>k\<close>, or appends a new one.\<close>

definition set_column :: "'a dataframe \<Rightarrow> label \<Rightarrow> 'a option list \<Rightarrow> 'a dataframe" where
  "set_column df k xs =
     (if k \<in> set (columns df)
      then df\<lparr>cols := map (\<lambda>c. if cname c = k then c\<lparr>cdata := NumCol xs\<rparr> else c) (cols df)\<rparr>
      else df\<lparr>cols := cols df @ [\<lparr>cname = k, cdata = NumCol xs\<rparr>]\<rparr>)"

text \<open>
  \<^verbatim>\<open>df[keys] = value\<close> with a frame on the right:
  \<^verbatim>\<open>for k1, k2 in zip(keys, value.columns): df[k1] = value[k2]\<close>.
\<close>

definition setitem_list :: "'a dataframe \<Rightarrow> label list \<Rightarrow> 'a numframe \<Rightarrow> 'a dataframe" where
  "setitem_list df keys val =
     fold (\<lambda>(k1, k2) d. case map_of val k2 of None \<Rightarrow> d | Some xs \<Rightarrow> set_column d k1 xs)
       (zip keys (map fst val)) df"

definition fill_missing_values :: "'a library \<Rightarrow> 'a dataframe \<Rightarrow> 'a dataframe" where
  "fill_missing_values L df =
     (let numeric_cols = select_dtypes_number df;
          sub = getitem_numeric df numeric_cols
      in setitem_list df numeric_cols (fillna sub (mean_df L sub)))"

section \<open>Standardize Column Names (main.py line 130)\<close>

text \<open>
  \<^verbatim>\<open>df.columns = df.columns.str.lower().str.replace(" ", "_")\<close>.

  \<^verbatim>\<open>str.lower\<close> turns the letters A to Z of an ASCII text into a to z; a text with
  other characters is lower-cased by the Unicode tables, which the library holds.
  \<^verbatim>\<open>str.replace(old, new)\<close> replaces every occurrence of \<open>old\<close>, left to right and
  without overlap, and with an empty \<open>old\<close> puts \<open>new\<close> before every character and at
  the end.
\<close>

definition lower_char :: "char \<Rightarrow> char" where
  "lower_char c =
     (let n = (of_char c :: nat) in if 65 \<le> n \<and> n \<le> 90 then char_of (n + 32) else c)"

definition is_ascii :: "string \<Rightarrow> bool" where
  "is_ascii s = list_all (\<lambda>c. (of_char c :: nat) < 128) s"

definition str_lower :: "'a library \<Rightarrow> string \<Rightarrow> string" where
  "str_lower L s = (if is_ascii s then map lower_char s else py_lower L s)"

function replace_nonempty :: "string \<Rightarrow> string \<Rightarrow> string \<Rightarrow> string" where
  "replace_nonempty old new [] = []"
| "replace_nonempty old new (c # cs) =
     (if old \<noteq> [] \<and> take (length old) (c # cs) = old
      then new @ replace_nonempty old new (drop (length old) (c # cs))
      else c # replace_nonempty old new cs)"
  by pat_completeness auto
termination
  by (relation "measure (\<lambda>(old, new, s). length s)") auto

definition str_replace :: "string \<Rightarrow> string \<Rightarrow> string \<Rightarrow> string" where
  "str_replace old new s =
     (if old = [] then new @ concat (map (\<lambda>c. c # new) s) else replace_nonempty old new s)"

definition standardize_name :: "'a library \<Rightarrow> string \<Rightarrow> string" where
  "standardize_name L n = str_replace '' '' ''_'' (str_lower L n)"

text \<open>
  The \<^verbatim>\<open>.str\<close> methods of an Index give NaN for a label that is no text.
\<close>

fun standardize_label :: "'a library \<Rightarrow> label \<Rightarrow> label" where
  "standardize_label L (Text s) = Text (standardize_name L s)"
| "standardize_label L (Other s) = Missing"
| "standardize_label L Missing = Missing"

text \<open>
  The \<^verbatim>\<open>.str\<close> accessor raises \<^verbatim>\<open>AttributeError\<close> ("Can only use .str accessor
  with string values") on an Index that has labels and none of them a text, as the header
  row of a spreadsheet with numbers only gives it. After \<^verbatim>\<open>lower()\<close> the texts are
  still texts, so the second accessor raises only where the first one does.
\<close>

definition standardize_columns :: "'a library \<Rightarrow> 'a dataframe \<Rightarrow> error + 'a dataframe" where
  "standardize_columns L df =
     (if columns df \<noteq> [] \<and> \<not> list_ex is_text (columns df) then Inl AttributeError
      else Inr (df\<lparr>cols := map (\<lambda>c. c\<lparr>cname := standardize_label L (cname c)\<rparr>) (cols df)\<rparr>))"

section \<open>Remove Columns (main.py line 138) and the cleaning chain (lines 122-139)\<close>

text \<open>
  \<^verbatim>\<open>df.drop(columns=labels)\<close> raises \<^verbatim>\<open>KeyError\<close> when a label is not a column,
  and drops every column that carries one of the labels.
\<close>

definition drop_columns :: "'a dataframe \<Rightarrow> label list \<Rightarrow> error + 'a dataframe" where
  "drop_columns df labels =
     (let missing = filter (\<lambda>k. k \<notin> set (columns df)) labels
      in if missing \<noteq> [] then Inl (KeyError missing)
         else Inr (df\<lparr>cols := filter (\<lambda>c. cname c \<notin> set labels) (cols df)\<rparr>))"

text \<open>
  \<open>cleaning_options\<close> is the list the multiselect returns, in the order the user picked
  the options; \<open>columns_to_remove\<close> is the selection of the second multiselect. An
  exception ends the run of the script for this file.
\<close>

definition apply_cleaning ::
  "'a library \<Rightarrow> string list \<Rightarrow> label list \<Rightarrow> 'a dataframe \<Rightarrow> error + 'a dataframe" where
  "apply_cleaning L cleaning_options columns_to_remove df =
     (let df1 = (if ''Remove Duplicates'' \<in> set cleaning_options then drop_duplicates df else df);
          df2 = (if ''Fill Missing Values'' \<in> set cleaning_options
                 then fill_missing_values L df1 else df1)
      in case (if ''Standardize Column Names'' \<in> set cleaning_options
               then standardize_columns L df2 else Inr df2) of
           Inl e \<Rightarrow> Inl e
         | Inr df3 \<Rightarrow>
             (if ''Remove Columns'' \<in> set cleaning_options
              then drop_columns df3 columns_to_remove else Inr df3))"

section \<open>Select Columns to Keep (main.py line 152: \<^verbatim>\<open>df = df[columns_to_keep]\<close>)\<close>

text \<open>
  Indexing with a list of labels: \<^verbatim>\<open>KeyError\<close> when a label is not a column; else
  the columns found for each label, label by label in the order of the list.
\<close>

definition getitem_list :: "'a dataframe \<Rightarrow> label list \<Rightarrow> error + 'a dataframe" where
  "getitem_list df keys =
     (let missing = filter (\<lambda>k. k \<notin> set (columns df)) keys
      in if missing \<noteq> [] then Inl (KeyError missing)
         else Inr (df\<lparr>cols := concat (map (\<lambda>k. filter (\<lambda>c. cname c = k) (cols df)) keys)\<rparr>))"

section \<open>Data Visualization (main.py lines 156-188)\<close>

datatype chart =
  BarChart | LineChart | Histogram | ScatterPlot | BoxPlot | CorrelationMatrix

text \<open>
  What the branch shows: nothing when the checkbox is off, the warning
  \<^verbatim>\<open>"No numeric columns found for visualization."\<close>, a chart over the two chosen
  axes, or the heat map of the matrix that \<^verbatim>\<open>df.corr()\<close> returns. The correlation is
  asked of the whole frame (line 183), and an exception it raises is not caught.
  \<open>corr\<close> is \<^verbatim>\<open>DataFrame.corr\<close>: the matrix of pairwise correlations, computed in
  float64 by pandas, or the exception it raises.
\<close>

datatype 'a viz =
  NotShown
  | NoNumericColumns
  | Plot chart label label
  | Heatmap "'a option list list"

definition visualization ::
  "('a dataframe \<Rightarrow> error + 'a option list list) \<Rightarrow>
     bool \<Rightarrow> chart \<Rightarrow> label \<Rightarrow> label \<Rightarrow> 'a dataframe \<Rightarrow> error + 'a viz" where
  "visualization corr checked chart_type x_axis y_axis df =
     (if checked then
        (let numeric_cols = select_dtypes_number df
         in if length numeric_cols > 0 then
              (if chart_type \<in> set [BarChart, LineChart, Histogram, ScatterPlot, BoxPlot]
               then Inr (Plot chart_type x_axis y_axis)
               else if chart_type = CorrelationMatrix then
                 (case corr df of Inl e \<Rightarrow> Inl e | Inr m \<Rightarrow> Inr (Heatmap m))
               else Inr NotShown)
            else Inr NoNumericColumns)
      else Inr NotShown)"

section \<open>File Conversion: the name and the MIME type (main.py lines 92-99, 198-207)\<close>

text \<open>
  \<^verbatim>\<open>file_ext = os.path.splitext(file.name)[-1].lower()\<close>.
  \<^verbatim>\<open>str.rfind\<close> is the last position of a character, or -1.
\<close>

definition rfind :: "string \<Rightarrow> char \<Rightarrow> int" where
  "rfind p c =
     (case filter (\<lambda>i. p ! i = c) (rev [0..<length p]) of [] \<Rightarrow> - 1 | i # _ \<Rightarrow> int i)"

text \<open>
  \<^verbatim>\<open>posixpath.splitext\<close>: the extension starts at the last dot, when that dot comes
  after the last \<^verbatim>\<open>/\<close> and some character between them is not a dot.
\<close>

definition splitext :: "string \<Rightarrow> string \<times> string" where
  "splitext p =
     (let sepIndex = rfind p CHR ''/'';
          dotIndex = rfind p CHR ''.''
      in if dotIndex > sepIndex \<and>
            list_ex (\<lambda>ch. ch \<noteq> CHR ''.'')
              (take (nat (dotIndex - (sepIndex + 1))) (drop (nat (sepIndex + 1)) p))
         then (take (nat dotIndex) p, drop (nat dotIndex) p)
         else (p, []))"

datatype conversion = CSV | Excel

definition xlsx_mime :: string where
  "xlsx_mime = ''application/vnd.openxmlformats-officedocument.spreadsheetml.sheet''"

text \<open>
  The per-file Convert button. A file whose lower-cased extension is neither
  \<^verbatim>\<open>.csv\<close> nor \<^verbatim>\<open>.xlsx\<close> is skipped at load (\<^verbatim>\<open>continue\<close>) and never
  reaches the button: \<open>None\<close>. Else the file name and MIME type of the download.
\<close>

definition convert_file :: "'a library \<Rightarrow> string \<Rightarrow> conversion \<Rightarrow> (string \<times> string) option" where
  "convert_file L name conversion_type =
     (let file_ext = str_lower L (snd (splitext name))
      in if file_ext = ''.csv'' \<or> file_ext = ''.xlsx'' then
           (case conversion_type of
              CSV \<Rightarrow> Some (str_replace file_ext ''.csv'' name, ''text/csv'')
            | Excel \<Rightarrow> Some (str_replace file_ext ''.xlsx'' name, xlsx_mime))
         else None)"

text \<open>
  The output name the specification asks for: the name without its extension, followed by
  the extension of the target format.
\<close>

definition spec_file_name :: "string \<Rightarrow> conversion \<Rightarrow> string" where
  "spec_file_name name conversion_type =
     fst (splitext name) @ (case conversion_type of CSV \<Rightarrow> ''.csv'' | Excel \<Rightarrow> ''.xlsx'')"

section \<open>Session state and the sidebar button (main.py lines 57-68, 79-82, 142)\<close>

text \<open>
  \<^verbatim>\<open>st.session_state\<close> outlives a run of the script. Only its keys matter to the
  sidebar handler. A run of the script assigns \<^verbatim>\<open>cleaned_data\<close> and
  \<^verbatim>\<open>show_balloons\<close>, and every widget created with \<^verbatim>\<open>key=\<close> is entered under
  that key; the sidebar widgets have none. Line 142 stores into the dictionary under
  \<^verbatim>\<open>cleaned_data\<close> and adds no key to the session.
\<close>

record file_run =
  fname :: string
  remove_selected :: bool
  charts_shown :: bool
  convert_clicked :: bool

definition widget_keys :: "file_run \<Rightarrow> string list" where
  "widget_keys f =
     [''cleaning_'' @ fname f]
     @ (if remove_selected f then [''remove_'' @ fname f] else [])
     @ [''columns_'' @ fname f, ''viz_'' @ fname f]
     @ (if charts_shown f then [''chart_'' @ fname f, ''x_'' @ fname f, ''y_'' @ fname f] else [])
     @ [''convert_'' @ fname f, ''convert_btn_'' @ fname f]
     @ (if convert_clicked f then [''download_'' @ fname f] else [])"

definition run_script :: "file_run list \<Rightarrow> string set \<Rightarrow> string set" where
  "run_script files ss =
     ss \<union> {''cleaned_data'', ''show_balloons''} \<union> set (concat (map widget_keys files))"

text \<open>
  The sessions a user can reach: a new session is empty, every run of the script adds its
  keys, and Streamlit forgets the keys of widgets that a run no longer creates.
\<close>

inductive reachable :: "string set \<Rightarrow> bool" where
  fresh: "reachable {}"
| rerun: "reachable ss \<Longrightarrow> reachable (run_script files ss)"
| forget: "reachable ss \<Longrightarrow> reachable (ss - ws)"

datatype sidebar =
  NotClicked
  | Download string string
  | NoDataLoaded

definition sidebar_convert :: "bool \<Rightarrow> conversion \<Rightarrow> string set \<Rightarrow> sidebar" where
  "sidebar_convert clicked conversion_type ss =
     (if clicked then
        (if ''df'' \<in> ss then
           (case conversion_type of
              CSV \<Rightarrow> Download ''converted_file.csv'' ''text/csv''
            | Excel \<Rightarrow> Download ''converted_file.xlsx'' xlsx_mime)
         else NoDataLoaded)
      else NotClicked)"

section \<open>Loading and exporting a table\<close>

text \<open>
  Modelled from the spec: the TableLoader (section 4.1) and the Exporter (section 4.5) with
  the file-format contract of section 6. In \<^verbatim>\<open>main.py\<close> they are the pandas calls
  \<^verbatim>\<open>read_csv\<close>, \<^verbatim>\<open>read_excel\<close> (lines 94, 96) and \<^verbatim>\<open>to_csv\<close>,
  \<^verbatim>\<open>to_excel\<close> (lines 201, 205), whose code is not among the sources.

  A file of either format is taken as what section 6 says it holds: a header row of column
  names and one record of fields per row. An empty field is the empty text.
\<close>

record sheet =
  header :: "string list"
  records :: "string list list"

text \<open>
  Modelled from the spec: the type inference of section 4.1. A column is numeric if every
  cell that is not missing parses as a number, otherwise text; empty cells, and only empty
  cells, become the missing marker.
\<close>

definition infer_column :: "'a library \<Rightarrow> string list \<Rightarrow> 'a coldata" where
  "infer_column L fs =
     (if list_all (\<lambda>s. s = [] \<or> parse_number L s \<noteq> None) fs
      then NumCol (map (\<lambda>s. if s = [] then None else parse_number L s) fs)
      else ObjCol (map (\<lambda>s. if s = [] then None else Some s) fs))"

text \<open>
  Modelled from the spec: \<open>Load(bytes, formatTag)\<close> of sections 4.1 and 6. It fails with
  \<open>UnsupportedFormat\<close> on a tag other than \<open>csv\<close> and \<open>xlsx\<close>, and with \<open>ParseError\<close>
  on a file without any column and on records of another width than the header row. The
  columns are named by the loader from the header row and are text labels.
\<close>

definition Load :: "'a library \<Rightarrow> string \<Rightarrow> sheet \<Rightarrow> error + 'a dataframe" where
  "Load L tag sh =
     (if tag \<noteq> ''csv'' \<and> tag \<noteq> ''xlsx'' then Inl UnsupportedFormat
      else if header sh = [] \<or> list_ex (\<lambda>r. length r \<noteq> length (header sh)) (records sh)
      then Inl ParseError
      else Inr \<lparr>cols = map (\<lambda>(j, n). \<lparr>cname = Text n,
                                       cdata = infer_column L (map (\<lambda>r. r ! j) (records sh))\<rparr>)
                         (zip [0..<length (header sh)] (mangle_names L (header sh))),
                nrows = length (records sh)\<rparr>)"

text \<open>
  Modelled from the spec: \<open>Export(Table, formatTag)\<close> of sections 4.5 and 6. The header
  row holds the column names, every row of the table is one record, a missing cell is
  written as the empty field, a number as the library formats it, a text as it is.
\<close>

fun label_text :: "label \<Rightarrow> string" where
  "label_text (Text s) = s"
| "label_text (Other s) = s"
| "label_text Missing = []"

fun cell_text :: "'a library \<Rightarrow> 'a cell \<Rightarrow> string" where
  "cell_text L (NumCell None) = []"
| "cell_text L (NumCell (Some x)) = format_number L x"
| "cell_text L (ObjCell None) = []"
| "cell_text L (ObjCell (Some s)) = s"

definition Export :: "'a library \<Rightarrow> 'a dataframe \<Rightarrow> string \<Rightarrow> error + sheet" where
  "Export L T tag =
     (if tag \<noteq> ''csv'' \<and> tag \<noteq> ''xlsx'' then Inl UnsupportedFormat
      else Inr \<lparr>header = map label_text (columns T),
                records = map (map (cell_text L)) (rows_of T)\<rparr>)"

text \<open>
  Modelled from the spec: the equality of section 8, column by column and row by row:
  the same column names, the same number of rows, missing where missing, numbers within
  the tolerance, texts the same.
\<close>

fun same_data :: "'a library \<Rightarrow> 'a coldata \<Rightarrow> 'a coldata \<Rightarrow> bool" where
  "same_data L (NumCol xs) (NumCol ys) = list_all2 (rel_option (within_tolerance L)) xs ys"
| "same_data L (ObjCol xs) (ObjCol ys) = (xs = ys)"
| "same_data L (NumCol xs) (ObjCol ys) = False"
| "same_data L (ObjCol xs) (NumCol ys) = False"

definition same_table :: "'a library \<Rightarrow> 'a dataframe \<Rightarrow> 'a dataframe \<Rightarrow> bool" where
  "same_table L T U =
     (columns T = columns U \<and> nrows T = nrows U
      \<and> list_all2 (same_data L) (map cdata (cols T)) (map cdata (cols U)))"

text \<open>
  Every number of the table is written as a field that is not empty and that parses back
  to a number within the tolerance.
\<close>

definition prints_back :: "'a library \<Rightarrow> 'a \<Rightarrow> bool" where
  "prints_back L x =
     (format_number L x \<noteq> []
      \<and> (case parse_number L (format_number L x) of
            None \<Rightarrow> False | Some y \<Rightarrow> within_tolerance L x y))"

fun data_prints_back :: "'a library \<Rightarrow> 'a coldata \<Rightarrow> bool" where
  "data_prints_back L (NumCol xs) = list_all (prints_back L) (dropna xs)"
| "data_prints_back L (ObjCol ys) = True"

definition numbers_print_back :: "'a library \<Rightarrow> 'a dataframe \<Rightarrow> bool" where
  "numbers_print_back L T = list_all (\<lambda>c. data_prints_back L (cdata c)) (cols T)"

subsection \<open>Tables as the loader types them\<close>

text \<open>
  What holds of every table that \<open>Load\<close> returns, and of what the cleaning chain and the
  selection of columns make of it: every column is as long as the row index and has a text
  label; a text column holds no empty text and holds some text that is no number.
\<close>

fun col_len :: "'a coldata \<Rightarrow> nat" where
  "col_len (NumCol xs) = length xs"
| "col_len (ObjCol ys) = length ys"

fun typed_ok :: "'a library \<Rightarrow> 'a coldata \<Rightarrow> bool" where
  "typed_ok L (NumCol xs) = True"
| "typed_ok L (ObjCol ys) =
     (\<not> list_ex (\<lambda>y. y = Some []) ys
      \<and> list_ex (\<lambda>y. case y of None \<Rightarrow> False | Some s \<Rightarrow> parse_number L s = None) ys)"

definition column_ok :: "'a library \<Rightarrow> nat \<Rightarrow> 'a column \<Rightarrow> bool" where
  "column_ok L n c = (col_len (cdata c) = n \<and> typed_ok L (cdata c) \<and> is_text (cname c))"

definition as_loaded :: "'a library \<Rightarrow> 'a dataframe \<Rightarrow> bool" where
  "as_loaded L df = list_all (column_ok L (nrows df)) (cols df)"

section \<open>The effect of Fill Missing Values on one column\<close>

text \<open>
  Two notions the proofs below use: the numeric content of a column as a frame of at most
  one column, and a column after the fill.
\<close>

definition num_of :: "'a column \<Rightarrow> 'a numframe" where
  "num_of c = (case cdata c of NumCol xs \<Rightarrow> [(cname c, xs)] | ObjCol ys \<Rightarrow> [])"

definition fill_column :: "'a library \<Rightarrow> 'a column \<Rightarrow> 'a column" where
  "fill_column L c =
     (case cdata c of
        NumCol xs \<Rightarrow> c\<lparr>cdata := NumCol (fillna_series (mean_series L xs) xs)\<rparr>
      | ObjCol ys \<Rightarrow> c)"

section \<open>A library with exact arithmetic, and the tables used as examples\<close>

text \<open>
  The examples are tables of small numbers and ASCII text, on which float64 arithmetic is
  exact. For them the library is taken over the real numbers: the mean is the sum divided
  by the count; \<^verbatim>\<open>str.lower\<close> is never asked about a text outside ASCII; the
  numbers 1, 1.5 and 2 are written and read in decimal notation; the k-th repetition of a
  name x in a header row is named x.k, for k up to 9; the tolerance is 1e-9. \<^verbatim>\<open>corr\<close> is the Pearson
  coefficient over the rows where both cells are present (NaN without variance) and raises
  \<^verbatim>\<open>ValueError\<close> on a text column.
\<close>

definition exact_mean :: "real list \<Rightarrow> real option" where
  "exact_mean vs = Some (sum_list vs / real (length vs))"

fun both_present :: "'b option list \<Rightarrow> 'b option list \<Rightarrow> ('b \<times> 'b) list" where
  "both_present (Some x # xs) (Some y # ys) = (x, y) # both_present xs ys"
| "both_present (x # xs) (y # ys) = both_present xs ys"
| "both_present xs ys = []"

definition exact_pearson :: "real option list \<Rightarrow> real option list \<Rightarrow> real option" where
  "exact_pearson xs ys =
     (let ps = both_present xs ys;
          n = real (length ps);
          sx = sum_list (map fst ps);
          sy = sum_list (map snd ps);
          d = (n * sum_list (map (\<lambda>(x, y). x * x) ps) - sx * sx)
              * (n * sum_list (map (\<lambda>(x, y). y * y) ps) - sy * sy)
      in if d = 0 then None
         else Some ((n * sum_list (map (\<lambda>(x, y). x * y) ps) - sx * sy) / sqrt d))"

fun numbers_of :: "'a coldata \<Rightarrow> 'a option list" where
  "numbers_of (NumCol xs) = xs"
| "numbers_of (ObjCol ys) = []"

definition exact_corr :: "real dataframe \<Rightarrow> error + real option list list" where
  "exact_corr df =
     (if list_ex (\<lambda>c. \<not> is_number (cdata c)) (cols df) then Inl ValueError
      else Inr (map (\<lambda>c1. map (\<lambda>c2. exact_pearson (numbers_of (cdata c1)) (numbers_of (cdata c2)))
                             (cols df)) (cols df)))"

definition decimal_parse :: "string \<Rightarrow> real option" where
  "decimal_parse s =
     map_of [(''1'', 1), (''1.0'', 1), (''1.5'', 3 / 2), (''2'', 2), (''2.0'', 2)] s"

definition decimal_format :: "real \<Rightarrow> string" where
  "decimal_format x =
     (if x = 1 then ''1'' else if x = 3 / 2 then ''1.5'' else if x = 2 then ''2'' else ''nan'')"

fun mangle_from :: "string list \<Rightarrow> string list \<Rightarrow> string list" where
  "mangle_from seen [] = []"
| "mangle_from seen (n # ns) =
     (let k = count_list seen n
      in (if k = 0 then n else n @ ''.'' @ [char_of (48 + k)])) # mangle_from (n # seen) ns"

definition exact_library :: "real library" where
  "exact_library =
     \<lparr>np_mean = exact_mean,
      py_lower = (\<lambda>s. s),
      parse_number = decimal_parse,
      format_number = decimal_format,
      mangle_names = mangle_from [],
      within_tolerance = (\<lambda>x y. \<bar>x - y\<bar> \<le> 1 / 10 ^ 9)\<rparr>"

text \<open>The scenario of the specification: rows (1, "a"), (1, "a"), (2, missing) over (n, s).\<close>

definition scenario_df :: "real dataframe" where
  "scenario_df =
     \<lparr>cols = [\<lparr>cname = Text ''n'', cdata = NumCol [Some 1, Some 1, Some 2]\<rparr>,
              \<lparr>cname = Text ''s'', cdata = ObjCol [Some ''a'', Some ''a'', None]\<rparr>],
      nrows = 3\<rparr>"

definition scenario_sheet :: sheet where
  "scenario_sheet =
     \<lparr>header = [''n'', ''s''], records = [[''1'', ''a''], [''1'', ''a''], [''2'', '''']]\<rparr>"

text \<open>A table whose only column is numeric, and a table of two numeric columns.\<close>

definition one_numeric_df :: "real dataframe" where
  "one_numeric_df =
     \<lparr>cols = [\<lparr>cname = Text ''n'', cdata = NumCol [Some 1, Some 2]\<rparr>], nrows = 2\<rparr>"

definition two_numeric_df :: "real dataframe" where
  "two_numeric_df =
     \<lparr>cols = [\<lparr>cname = Text ''n'', cdata = NumCol [Some 1, Some 2]\<rparr>,
              \<lparr>cname = Text ''m'', cdata = NumCol [Some 2, Some 1]\<rparr>],
      nrows = 2\<rparr>"

definition all_missing_df :: "real dataframe" where
  "all_missing_df =
     \<lparr>cols = [\<lparr>cname = Text ''n'', cdata = NumCol [Some 1, None, Some 2]\<rparr>,
              \<lparr>cname = Text ''s'', cdata = ObjCol [Some ''a'', None, Some ''b'']\<rparr>,
              \<lparr>cname = Text ''m'', cdata = NumCol [None, None, None]\<rparr>],
      nrows = 3\<rparr>"

text \<open>The other scenario of the specification: the column names "User Name" and "AGE".\<close>

definition users_df :: "real dataframe" where
  "users_df =
     \<lparr>cols = [\<lparr>cname = Text ''User Name'', cdata = ObjCol [Some ''a'']\<rparr>,
              \<lparr>cname = Text ''AGE'', cdata = NumCol [Some 1]\<rparr>],
      nrows = 1\<rparr>"

text \<open>A file with the column names "A B" and "A_B", and the table loaded from it.\<close>

definition colliding_sheet :: sheet where
  "colliding_sheet = \<lparr>header = [''A B'', ''A_B''], records = [[''1'', ''2'']]\<rparr>"

definition colliding_df :: "real dataframe" where
  "colliding_df =
     \<lparr>cols = [\<lparr>cname = Text ''A B'', cdata = NumCol [Some 1]\<rparr>,
              \<lparr>cname = Text ''A_B'', cdata = NumCol [Some 2]\<rparr>],
      nrows = 1\<rparr>"

text \<open>
  What the pipeline makes of that table with Standardize Column Names selected and the
  selection of columns left at its default, all columns, and what loading the exported
  file gives.
\<close>

definition collided_df :: "real dataframe" where
  "collided_df =
     \<lparr>cols = [\<lparr>cname = Text ''a_b'', cdata = NumCol [Some 1]\<rparr>,
              \<lparr>cname = Text ''a_b'', cdata = NumCol [Some 2]\<rparr>],
      nrows = 1\<rparr>"

definition selected_df :: "real dataframe" where
  "selected_df =
     \<lparr>cols = [\<lparr>cname = Text ''a_b'', cdata = NumCol [Some 1]\<rparr>,
              \<lparr>cname = Text ''a_b'', cdata = NumCol [Some 2]\<rparr>,
              \<lparr>cname = Text ''a_b'', cdata = NumCol [Some 1]\<rparr>,
              \<lparr>cname = Text ''a_b'', cdata = NumCol [Some 2]\<rparr>],
      nrows = 1\<rparr>"

definition reloaded_df :: "real dataframe" where
  "reloaded_df =
     \<lparr>cols = [\<lparr>cname = Text ''a_b'', cdata = NumCol [Some 1]\<rparr>,
              \<lparr>cname = Text ''a_b.1'', cdata = NumCol [Some 2]\<rparr>,
              \<lparr>cname = Text ''a_b.2'', cdata = NumCol [Some 1]\<rparr>,
              \<lparr>cname = Text ''a_b.3'', cdata = NumCol [Some 2]\<rparr>],
      nrows = 1\<rparr>"

text \<open>The scenario table without its duplicate row, and with the columns s, n selected.\<close>

definition deduplicated_df :: "real dataframe" where
  "deduplicated_df =
     \<lparr>cols = [\<lparr>cname = Text ''n'', cdata = NumCol [Some 1, Some 2]\<rparr>,
              \<lparr>cname = Text ''s'', cdata = ObjCol [Some ''a'', None]\<rparr>],
      nrows = 2\<rparr>"

definition kept_df :: "real dataframe" where
  "kept_df =
     \<lparr>cols = [\<lparr>cname = Text ''s'', cdata = ObjCol [Some ''a'', None]\<rparr>,
              \<lparr>cname = Text ''n'', cdata = NumCol [Some 1, Some 2]\<rparr>],
      nrows = 2\<rparr>"

section \<open>Remove Duplicates: properties\<close>

lemma length_duplicated_from: "length (duplicated_from seen rs) = length rs"
  by (induction rs arbitrary: seen) simp_all

lemma duplicated_from_nth:
  "i < length rs \<Longrightarrow> duplicated_from seen rs ! i = (rs ! i \<in> set seen \<union> set (take i rs))"
proof (induction rs arbitrary: seen i)
  case Nil
  then show ?case by simp
next
  case (Cons r rs)
  then show ?case by (cases i) auto
qed

lemma nonzero_not_duplicated:
  "nonzero (map Not (duplicated_from [] rs)) =
     filter (\<lambda>i. rs ! i \<notin> set (take i rs)) [0..<length rs]"
  unfolding nonzero_def
  by (rule filter_cong) (simp_all add: length_duplicated_from duplicated_from_nth)

lemma earlier_in_take: "i < j \<Longrightarrow> j < length rs \<Longrightarrow> rs ! i \<in> set (take j rs)"
  by (auto simp: in_set_conv_nth intro!: exI [of _ i])

lemma distinct_first_occurrences:
  "distinct (map (\<lambda>i. rs ! i) (filter (\<lambda>i. rs ! i \<notin> set (take i rs)) [0..<length rs]))"
proof -
  let ?first = "{i. i < length rs \<and> rs ! i \<notin> set (take i rs)}"
  have "inj_on (\<lambda>i. rs ! i) ?first"
  proof (rule inj_onI)
    fix i j
    assume i: "i \<in> ?first" and j: "j \<in> ?first" and eq: "rs ! i = rs ! j"
    have "\<not> i < j"
      using earlier_in_take [of i j rs] eq j by auto
    moreover have "\<not> j < i"
      using earlier_in_take [of j i rs] eq i by auto
    ultimately show "i = j" by simp
  qed
  then show ?thesis
    by (simp add: distinct_map)
qed

lemma nonzero_distinct:
  assumes "distinct rs"
  shows "nonzero (map Not (duplicated_from [] rs)) = [0..<length rs]"
proof -
  have "\<And>i. i < length rs \<Longrightarrow> rs ! i \<notin> set (take i rs)"
    using assms by (auto simp: in_set_conv_nth distinct_conv_nth)
  then have "filter (\<lambda>i. rs ! i \<notin> set (take i rs)) [0..<length rs] = [0..<length rs]"
    by (simp add: filter_id_conv)
  then show ?thesis
    by (simp add: nonzero_not_duplicated)
qed

lemma cell_at_take_data: "j < length idx \<Longrightarrow> cell_at (take_data idx d) j = cell_at d (idx ! j)"
  by (cases d) simp_all

lemma rows_of_take_rows: "rows_of (take_rows idx df) = map (row_at df) idx"
proof -
  have "map (row_at (take_rows idx df)) [0..<length idx] =
        map (\<lambda>j. row_at df (idx ! j)) [0..<length idx]"
    by (rule map_cong) (simp_all add: row_at_def take_rows_def o_def cell_at_take_data)
  also have "\<dots> = map (row_at df) (map (\<lambda>j. idx ! j) [0..<length idx])"
    by (simp add: o_def)
  also have "\<dots> = map (row_at df) idx"
    by (simp add: map_nth)
  finally show ?thesis
    by (simp add: rows_of_def take_rows_def)
qed

lemma map_nth_map: "map (\<lambda>j. map f idx ! j) [0..<length idx] = map f idx"
  using map_nth [of "map f idx"] by simp

lemma take_data_upt: "take_data [0..<length idx] (take_data idx d) = take_data idx d"
  by (cases d) (simp_all add: map_nth_map)

lemma take_rows_upt: "take_rows [0..<length idx] (take_rows idx df) = take_rows idx df"
  by (simp add: take_rows_def o_def take_data_upt)

lemma rows_of_drop_duplicates:
  assumes "\<not> empty_df df"
  shows "rows_of (drop_duplicates df) =
     map (\<lambda>i. rows_of df ! i)
       (filter (\<lambda>i. rows_of df ! i \<notin> set (take i (rows_of df))) [0..<nrows df])"
proof -
  let ?keep = "filter (\<lambda>i. rows_of df ! i \<notin> set (take i (rows_of df))) [0..<nrows df]"
  have len: "length (rows_of df) = nrows df"
    by (simp add: rows_of_def)
  have "rows_of (drop_duplicates df) =
        map (row_at df) (nonzero (map Not (duplicated_from [] (rows_of df))))"
    using assms
    by (simp add: drop_duplicates_def getitem_mask_def duplicated_def rows_of_take_rows)
  also have "\<dots> = map (row_at df) ?keep"
    by (simp add: nonzero_not_duplicated len)
  also have "\<dots> = map (\<lambda>i. rows_of df ! i) ?keep"
    by (rule map_cong) (simp_all add: rows_of_def)
  finally show ?thesis .
qed

lemma drop_duplicates_twice: "drop_duplicates (drop_duplicates df) = drop_duplicates df"
proof (cases "empty_df df")
  case True
  then show ?thesis by (simp add: drop_duplicates_def)
next
  case False
  define idx where "idx = nonzero (map Not (duplicated_from [] (rows_of df)))"
  have d: "drop_duplicates df = take_rows idx df"
    using False by (simp add: drop_duplicates_def getitem_mask_def duplicated_def idx_def)
  have len: "length (rows_of df) = nrows df"
    by (simp add: rows_of_def)
  have "distinct (rows_of (drop_duplicates df))"
    using distinct_first_occurrences [of "rows_of df"] False
    by (simp add: rows_of_drop_duplicates len)
  then have dist: "distinct (rows_of (take_rows idx df))"
    by (simp add: d)
  have n: "length (rows_of (take_rows idx df)) = length idx"
    by (simp add: rows_of_take_rows)
  show ?thesis
  proof (cases "empty_df (take_rows idx df)")
    case True
    then have "drop_duplicates (take_rows idx df) = take_rows idx df"
      by (simp add: drop_duplicates_def)
    then show ?thesis unfolding d .
  next
    case False
    then have "drop_duplicates (take_rows idx df) =
        take_rows (nonzero (map Not (duplicated_from [] (rows_of (take_rows idx df)))))
          (take_rows idx df)"
      by (simp add: drop_duplicates_def getitem_mask_def duplicated_def)
    also have "\<dots> = take_rows [0..<length idx] (take_rows idx df)"
      using nonzero_distinct [OF dist] by (simp add: n)
    also have "\<dots> = take_rows idx df"
      by (rule take_rows_upt)
    finally show ?thesis unfolding d .
  qed
qed

text \<open>
  C8. Remove Duplicates is idempotent: dropping duplicates twice gives the same table as
  dropping them once. On a table with at least one column, the rows that remain are the
  rows that equal no earlier row (missing equal to missing), in their original order, so the
  first occurrence of every row is the one kept.
\<close>

theorem drop_duplicates_idempotent:
  "drop_duplicates (drop_duplicates df) = drop_duplicates df
   \<and> (cols df \<noteq> [] \<longrightarrow>
        rows_of (drop_duplicates df) =
          map (\<lambda>i. rows_of df ! i)
            (filter (\<lambda>i. rows_of df ! i \<notin> set (take i (rows_of df))) [0..<nrows df]))"
proof (intro conjI impI)
  show "drop_duplicates (drop_duplicates df) = drop_duplicates df"
    by (rule drop_duplicates_twice)
next
  assume c: "cols df \<noteq> []"
  show "rows_of (drop_duplicates df) =
          map (\<lambda>i. rows_of df ! i)
            (filter (\<lambda>i. rows_of df ! i \<notin> set (take i (rows_of df))) [0..<nrows df])"
  proof (cases "nrows df = 0")
    case True
    then show ?thesis
      by (simp add: drop_duplicates_def empty_df_def rows_of_def)
  next
    case False
    with c have "\<not> empty_df df" by (simp add: empty_df_def)
    then show ?thesis by (rule rows_of_drop_duplicates)
  qed
qed

theorem drop_duplicates_idempotent_witness:
  "cols scenario_df \<noteq> []
   \<and> drop_duplicates (drop_duplicates scenario_df) = drop_duplicates scenario_df
   \<and> rows_of (drop_duplicates scenario_df) =
       [[NumCell (Some 1), ObjCell (Some ''a'')], [NumCell (Some 2), ObjCell None]]"
proof -
  have c: "cols scenario_df \<noteq> []"
    by (simp add: scenario_df_def)
  have r: "map (\<lambda>i. rows_of scenario_df ! i)
             (filter (\<lambda>i. rows_of scenario_df ! i \<notin> set (take i (rows_of scenario_df)))
                [0..<nrows scenario_df]) =
           [[NumCell (Some 1), ObjCell (Some ''a'')], [NumCell (Some 2), ObjCell None]]"
    by code_simp
  from drop_duplicates_idempotent [of scenario_df] c r show ?thesis
    by simp
qed

section \<open>The cleaning chain: properties\<close>

text \<open>
  C3. The table that the cleaning chain returns does not depend on the order in which the
  user selected the operations: two selections that are permutations of each other give the
  same result, which is the chain Remove Duplicates, Fill Missing Values, Standardize
  Column Names, Remove Columns, with every operation that is not selected left out.
\<close>

theorem cleaning_order_independent:
  assumes "mset opts' = mset opts"
  shows "apply_cleaning L opts' rm df = apply_cleaning L opts rm df
    \<and> apply_cleaning L opts' rm df =
        (case (if ''Standardize Column Names'' \<in> set opts then standardize_columns L else Inr)
                ((if ''Fill Missing Values'' \<in> set opts then fill_missing_values L else id)
                  ((if ''Remove Duplicates'' \<in> set opts then drop_duplicates else id) df)) of
           Inl e \<Rightarrow> Inl e
         | Inr d \<Rightarrow> if ''Remove Columns'' \<in> set opts then drop_columns d rm else Inr d)"
proof -
  from assms have s: "set opts' = set opts"
    by (rule mset_eq_setD)
  show ?thesis
    unfolding apply_cleaning_def s by simp
qed

theorem cleaning_order_independent_witness:
  "mset [''Remove Columns'', ''Fill Missing Values'', ''Remove Duplicates''] =
     mset [''Remove Duplicates'', ''Fill Missing Values'', ''Remove Columns'']
   \<and> apply_cleaning exact_library
         [''Remove Columns'', ''Fill Missing Values'', ''Remove Duplicates''] [Text ''s'']
         all_missing_df =
       apply_cleaning exact_library
         [''Remove Duplicates'', ''Fill Missing Values'', ''Remove Columns''] [Text ''s'']
         all_missing_df
   \<and> apply_cleaning exact_library
         [''Remove Duplicates'', ''Fill Missing Values'', ''Remove Columns''] [Text ''s'']
         all_missing_df =
       Inr \<lparr>cols = [\<lparr>cname = Text ''n'', cdata = NumCol [Some 1, Some (3 / 2), Some 2]\<rparr>,
                    \<lparr>cname = Text ''m'', cdata = NumCol [None, None, None]\<rparr>],
            nrows = 3\<rparr>"
proof -
  have p: "mset [''Remove Columns'', ''Fill Missing Values'', ''Remove Duplicates''] =
           mset [''Remove Duplicates'', ''Fill Missing Values'', ''Remove Columns'']"
    by (simp add: add.commute)
  have v: "apply_cleaning exact_library
             [''Remove Duplicates'', ''Fill Missing Values'', ''Remove Columns'']
             [Text ''s''] all_missing_df =
           Inr \<lparr>cols = [\<lparr>cname = Text ''n'', cdata = NumCol [Some 1, Some (3 / 2), Some 2]\<rparr>,
                        \<lparr>cname = Text ''m'', cdata = NumCol [None, None, None]\<rparr>],
                nrows = 3\<rparr>"
    by code_simp
  from cleaning_order_independent [OF p, of exact_library "[Text ''s'']" all_missing_df] p v
  show ?thesis
    by simp
qed

section \<open>Standardize Column Names: properties\<close>

lemma replace_char: "replace_nonempty [a] [b] s = map (\<lambda>c. if c = a then b else c) s"
  by (induction s) simp_all

lemma standardize_name_chars:
  "standardize_name L n = map (\<lambda>c. if c = CHR '' '' then CHR ''_'' else c) (str_lower L n)"
  by (simp add: standardize_name_def str_replace_def replace_char)

lemma standardize_label_text:
  "is_text l \<Longrightarrow>
     standardize_label L l =
       Text (map (\<lambda>c. if c = CHR '' '' then CHR ''_'' else c) (str_lower L (label_text l)))"
  by (cases l) (simp_all add: standardize_name_chars)

text \<open>
  C5, as the code has it. The claim that two names which collapse to one make the operation
  fail with DuplicateColumnName does not hold: on the columns "A B" and "A_B" the
  operation succeeds and returns a table with two columns named "a_b".
\<close>

theorem standardize_columns_counterexample:
  "distinct (columns colliding_df)
   \<and> apply_cleaning exact_library [''Standardize Column Names''] [] colliding_df =
       Inr \<lparr>cols = [\<lparr>cname = Text ''a_b'', cdata = NumCol [Some 1]\<rparr>,
                    \<lparr>cname = Text ''a_b'', cdata = NumCol [Some 2]\<rparr>],
            nrows = 1\<rparr>"
  by code_simp

text \<open>
  C5, amended. On a table whose column names are all text, Standardize Column Names
  succeeds whether or not names collapse: it checks nothing about the names it produces.
  It rewrites every name to lower case (\<^verbatim>\<open>str.lower\<close>: A to Z become a to z in an
  ASCII name) with each space replaced by an underscore, and keeps the order and the
  content of the columns and the rows.
\<close>

theorem standardize_columns_text:
  assumes "list_all is_text (columns df)"
  shows "apply_cleaning L [''Standardize Column Names''] rm df =
       Inr (df\<lparr>cols := map (\<lambda>c. c\<lparr>cname := standardize_label L (cname c)\<rparr>) (cols df)\<rparr>)
    \<and> map (standardize_label L) (columns df) =
        map (\<lambda>l. Text (map (\<lambda>c. if c = CHR '' '' then CHR ''_'' else c)
                          (str_lower L (label_text l)))) (columns df)
    \<and> (\<forall>s. is_ascii s \<longrightarrow> str_lower L s = map lower_char s)"
proof (intro conjI allI impI)
  have "columns df = [] \<or> list_ex is_text (columns df)"
    using assms by (cases "columns df") simp_all
  then show "apply_cleaning L [''Standardize Column Names''] rm df =
       Inr (df\<lparr>cols := map (\<lambda>c. c\<lparr>cname := standardize_label L (cname c)\<rparr>) (cols df)\<rparr>)"
    by (auto simp: apply_cleaning_def standardize_columns_def)
  show "map (standardize_label L) (columns df) =
        map (\<lambda>l. Text (map (\<lambda>c. if c = CHR '' '' then CHR ''_'' else c)
                          (str_lower L (label_text l)))) (columns df)"
    using assms by (intro map_cong refl standardize_label_text) (simp add: list_all_iff)
next
  fix s
  assume "is_ascii s"
  then show "str_lower L s = map lower_char s"
    by (simp add: str_lower_def)
qed

theorem standardize_columns_text_witness:
  "list_all is_text (columns users_df)
   \<and> apply_cleaning exact_library [''Standardize Column Names''] [] users_df =
       Inr \<lparr>cols = [\<lparr>cname = Text ''user_name'', cdata = ObjCol [Some ''a'']\<rparr>,
                    \<lparr>cname = Text ''age'', cdata = NumCol [Some 1]\<rparr>],
            nrows = 1\<rparr>
   \<and> is_ascii ''AGE'' \<and> str_lower exact_library ''AGE'' = ''age''"
proof -
  have t: "list_all is_text (columns users_df)"
    by (simp add: columns_def users_df_def)
  have a: "is_ascii ''AGE''"
    by code_simp
  have v: "users_df\<lparr>cols := map (\<lambda>c. c\<lparr>cname := standardize_label exact_library (cname c)\<rparr>)
                                (cols users_df)\<rparr> =
       \<lparr>cols = [\<lparr>cname = Text ''user_name'', cdata = ObjCol [Some ''a'']\<rparr>,
               \<lparr>cname = Text ''age'', cdata = NumCol [Some 1]\<rparr>],
        nrows = 1\<rparr>"
    by code_simp
  have l: "map lower_char ''AGE'' = ''age''"
    by code_simp
  from standardize_columns_text [OF t, of exact_library "[]"] t a v l show ?thesis
    by simp
qed

section \<open>Data Visualization: properties\<close>

text \<open>
  C2, as the code has it. The claim that a table with exactly one numeric column gets the
  NoNumericColumns signal does not hold: the guard is \<^verbatim>\<open>len(numeric_cols) > 0\<close>, and
  on a table whose one column is numeric the correlation matrix is computed, the matrix of
  the single coefficient 1.
\<close>

theorem correlation_counterexample:
  "length (select_dtypes_number one_numeric_df) = 1
   \<and> visualization exact_corr True CorrelationMatrix (Text ''n'') (Text ''n'') one_numeric_df
       = Inr (Heatmap [[Some 1]])"
  by (simp add: visualization_def select_dtypes_number_def one_numeric_df_def exact_corr_def
      exact_pearson_def)

text \<open>
  C2, amended. With the visualizations switched on, a table gets the NoNumericColumns
  signal exactly when it has no numeric column at all, instead of any chart or matrix. With
  one numeric column or more, asking for the correlation matrix passes the whole table to
  \<^verbatim>\<open>df.corr()\<close>, and what comes back, the matrix or an exception, is the outcome; so a
  correlation matrix is produced only when at least one numeric column exists.
\<close>

theorem correlation_guard:
  "(visualization corr True chart_type x y df = Inr NoNumericColumns)
     = (select_dtypes_number df = [])
   \<and> (select_dtypes_number df \<noteq> [] \<longrightarrow>
        visualization corr True CorrelationMatrix x y df =
          (case corr df of Inl e \<Rightarrow> Inl e | Inr m \<Rightarrow> Inr (Heatmap m)))
   \<and> (visualization corr True chart_type x y df = Inr (Heatmap m) \<longrightarrow>
        select_dtypes_number df \<noteq> [])"
  by (cases chart_type) (auto simp: visualization_def split: sum.splits)

theorem correlation_guard_witness:
  "select_dtypes_number two_numeric_df \<noteq> []
   \<and> visualization exact_corr True CorrelationMatrix (Text ''n'') (Text ''m'') two_numeric_df
       = Inr (Heatmap [[Some 1, Some (- 1)], [Some (- 1), Some 1]])
   \<and> visualization exact_corr True CorrelationMatrix (Text ''n'') (Text ''m'') two_numeric_df
       \<noteq> Inr NoNumericColumns"
proof -
  have n: "select_dtypes_number two_numeric_df \<noteq> []"
    by (simp add: select_dtypes_number_def two_numeric_df_def)
  have c: "exact_corr two_numeric_df = Inr [[Some 1, Some (- 1)], [Some (- 1), Some 1]]"
    by (simp add: two_numeric_df_def exact_corr_def exact_pearson_def)
  from correlation_guard
    [of exact_corr CorrelationMatrix "Text ''n''" "Text ''m''" two_numeric_df] n c
  show ?thesis
    by simp
qed

section \<open>File Conversion: properties\<close>

text \<open>
  C7. The output name should be the input name with its extension replaced by the extension
  of the target format. \<^verbatim>\<open>file.name.replace(file_ext, ...)\<close> replaces every
  occurrence of the extension in the name, not only the one at the end: converting
  "data.csv.csv" to Excel names the download "data.xlsx.xlsx", where replacing the extension
  gives "data.csv.xlsx".
\<close>

theorem convert_file_replaces_every_occurrence:
  "convert_file L ''data.csv.csv'' Excel = Some (''data.xlsx.xlsx'', xlsx_mime)
   \<and> spec_file_name ''data.csv.csv'' Excel = ''data.csv.xlsx''"
  by code_simp

section \<open>The sidebar button: properties\<close>

lemma df_not_widget_key: "''df'' \<notin> set (widget_keys f)"
  by (simp add: widget_keys_def)

lemma reachable_no_df: "reachable ss \<Longrightarrow> ''df'' \<notin> ss"
proof (induction rule: reachable.induct)
  case fresh
  show ?case by simp
next
  case (rerun ss files)
  then show ?case by (simp add: run_script_def df_not_widget_key)
next
  case (forget ss ws)
  then show ?case by simp
qed

text \<open>
  C9. In every session that can be reached, a click on the sidebar button "Convert and
  Download" reports that no data is loaded: no run of the script puts the key
  \<^verbatim>\<open>df\<close> into the session state, so the branch that converts is never taken.
\<close>

theorem sidebar_convert_no_data:
  "reachable ss \<Longrightarrow> sidebar_convert True conversion_type ss = NoDataLoaded"
  by (simp add: sidebar_convert_def reachable_no_df)

theorem sidebar_convert_no_data_witness:
  "reachable (run_script [\<lparr>fname = ''data.csv'', remove_selected = True, charts_shown = True,
                            convert_clicked = True\<rparr>] {})
   \<and> sidebar_convert True CSV
       (run_script [\<lparr>fname = ''data.csv'', remove_selected = True, charts_shown = True,
                     convert_clicked = True\<rparr>] {}) = NoDataLoaded"
proof -
  have r: "reachable (run_script [\<lparr>fname = ''data.csv'', remove_selected = True,
                                   charts_shown = True, convert_clicked = True\<rparr>] {})"
    by (rule reachable.rerun) (rule reachable.fresh)
  from sidebar_convert_no_data [OF r, of CSV] r show ?thesis
    by simp
qed

section \<open>Select Columns to Keep: properties\<close>

lemma filter_cname_unique:
  "distinct (map cname cs) \<Longrightarrow> c \<in> set cs \<Longrightarrow> filter (\<lambda>c'. cname c' = cname c) cs = [c]"
proof (induction cs)
  case Nil
  then show ?case by simp
next
  case (Cons a cs)
  show ?case
  proof (cases "a = c")
    case True
    from Cons.prems True have "cname c \<notin> cname ` set cs" by simp
    then have "\<forall>x\<in>set cs. cname x \<noteq> cname c" by (metis imageI)
    then have "filter (\<lambda>c'. cname c' = cname c) cs = []"
      by (simp add: filter_empty_conv)
    with True show ?thesis by simp
  next
    case False
    with Cons.prems have "c \<in> set cs" by simp
    moreover from this Cons.prems have "cname a \<noteq> cname c" by auto
    ultimately show ?thesis using Cons by simp
  qed
qed

lemma map_cname_filter_unique:
  "distinct (map cname cs) \<Longrightarrow> k \<in> set (map cname cs) \<Longrightarrow>
     map cname (filter (\<lambda>c. cname c = k) cs) = [k]"
  using filter_cname_unique by fastforce

lemma getitem_cols_names:
  "distinct (map cname cs) \<Longrightarrow> set keys \<subseteq> set (map cname cs) \<Longrightarrow>
     map cname (concat (map (\<lambda>k. filter (\<lambda>c. cname c = k) cs) keys)) = keys"
  by (induction keys) (simp_all add: map_cname_filter_unique del: set_map)

lemma getitem_list_distinct:
  assumes "distinct (columns df)" and "set keys \<subseteq> set (columns df)"
  shows "\<exists>df'. getitem_list df keys = Inr df' \<and> columns df' = keys \<and> nrows df' = nrows df
           \<and> set (cols df') \<subseteq> set (cols df)"
proof -
  have "filter (\<lambda>k. k \<notin> set (columns df)) keys = []"
    using assms(2) by (auto simp: filter_empty_conv)
  then have "getitem_list df keys =
      Inr (df\<lparr>cols := concat (map (\<lambda>k. filter (\<lambda>c. cname c = k) (cols df)) keys)\<rparr>)"
    by (simp add: getitem_list_def)
  moreover have "map cname (concat (map (\<lambda>k. filter (\<lambda>c. cname c = k) (cols df)) keys)) = keys"
    using assms by (simp add: getitem_cols_names columns_def del: set_map)
  ultimately show ?thesis
    by (auto simp: columns_def)
qed

text \<open>
  C6. On a table with distinct column names that has the columns c1 and c2, selecting
  [c2, c1] succeeds and gives a table whose columns are c2, c1 in this order, the order of
  the selection; every column of the result is a column of the table, with its cells, and
  the rows are the same in number.
\<close>

theorem projection_order:
  assumes "distinct (columns df)" and "c1 \<in> set (columns df)" and "c2 \<in> set (columns df)"
  shows "\<exists>df'. getitem_list df [c2, c1] = Inr df' \<and> columns df' = [c2, c1]
           \<and> nrows df' = nrows df \<and> set (cols df') \<subseteq> set (cols df)"
  using assms by (intro getitem_list_distinct) simp_all

theorem projection_order_witness:
  "distinct (columns scenario_df) \<and> Text ''n'' \<in> set (columns scenario_df)
   \<and> Text ''s'' \<in> set (columns scenario_df)
   \<and> getitem_list scenario_df [Text ''s'', Text ''n''] =
       Inr \<lparr>cols = [\<lparr>cname = Text ''s'', cdata = ObjCol [Some ''a'', Some ''a'', None]\<rparr>,
                    \<lparr>cname = Text ''n'', cdata = NumCol [Some 1, Some 1, Some 2]\<rparr>],
            nrows = 3\<rparr>"
proof -
  have d: "distinct (columns scenario_df)"
    and n: "Text ''n'' \<in> set (columns scenario_df)"
    and s: "Text ''s'' \<in> set (columns scenario_df)"
    by (simp_all add: columns_def scenario_df_def)
  have v: "getitem_list scenario_df [Text ''s'', Text ''n''] =
       Inr \<lparr>cols = [\<lparr>cname = Text ''s'', cdata = ObjCol [Some ''a'', Some ''a'', None]\<rparr>,
                    \<lparr>cname = Text ''n'', cdata = NumCol [Some 1, Some 1, Some 2]\<rparr>],
            nrows = 3\<rparr>"
    by code_simp
  from projection_order [OF d n s] d n s v show ?thesis
    by simp
qed

section \<open>Fill Missing Values: properties\<close>

lemma num_of_NumCol: "cdata c = NumCol xs \<Longrightarrow> num_of c = [(cname c, xs)]"
  by (simp add: num_of_def)

lemma num_of_ObjCol: "cdata c = ObjCol ys \<Longrightarrow> num_of c = []"
  by (simp add: num_of_def)

lemma numeric_named_filter:
  "concat (map (numeric_named k) cs) = concat (map num_of (filter (\<lambda>c. cname c = k) cs))"
  by (induction cs) (auto simp: num_of_def split: coldata.splits)

lemma numeric_named_unique:
  "distinct (map cname cs) \<Longrightarrow> c \<in> set cs \<Longrightarrow>
     concat (map (numeric_named (cname c)) cs) = num_of c"
  by (simp add: numeric_named_filter filter_cname_unique)

lemma getitem_numeric_sub:
  "distinct (map cname cs) \<Longrightarrow> set ds \<subseteq> set cs \<Longrightarrow>
     concat (map (\<lambda>k. concat (map (numeric_named k) cs)) (map cname ds)) = concat (map num_of ds)"
proof (induction ds)
  case Nil
  then show ?case by simp
next
  case (Cons d ds)
  then show ?case
    using numeric_named_unique [of cs d] by (simp del: numeric_named.simps)
qed

lemma num_of_filter_number:
  "concat (map num_of (filter (\<lambda>c. is_number (cdata c)) cs)) = concat (map num_of cs)"
  by (induction cs) (auto simp: num_of_def split: coldata.splits)

lemma getitem_numeric_all:
  assumes "distinct (columns df)"
  shows "getitem_numeric df (select_dtypes_number df) = concat (map num_of (cols df))"
proof -
  have "getitem_numeric df (select_dtypes_number df) =
        concat (map num_of (filter (\<lambda>c. is_number (cdata c)) (cols df)))"
    unfolding getitem_numeric_def select_dtypes_number_def
    using assms by (intro getitem_numeric_sub) (simp_all add: columns_def)
  then show ?thesis
    by (simp only: num_of_filter_number)
qed

lemma fst_num_of:
  "map fst (concat (map num_of cs)) = map cname (filter (\<lambda>c. is_number (cdata c)) cs)"
  by (induction cs) (auto simp: num_of_def split: coldata.splits)

lemma map_of_num_of:
  "distinct (map cname cs) \<Longrightarrow> c \<in> set cs \<Longrightarrow>
     map_of (concat (map num_of cs)) (cname c) =
       (case cdata c of NumCol xs \<Rightarrow> Some xs | ObjCol ys \<Rightarrow> None)"
proof (induction cs)
  case Nil
  then show ?case by simp
next
  case (Cons a cs)
  show ?case
  proof (cases "a = c")
    case True
    from Cons.prems True have "cname c \<notin> cname ` set cs" by simp
    then have "cname c \<notin> set (map fst (concat (map num_of cs)))"
      by (auto simp: fst_num_of)
    then have "map_of (concat (map num_of cs)) (cname c) = None"
      by (simp add: map_of_eq_None_iff)
    with True show ?thesis
      by (cases "cdata c") (simp_all add: num_of_NumCol num_of_ObjCol)
  next
    case False
    with Cons.prems have c: "c \<in> set cs" by simp
    with Cons.prems have "cname a \<noteq> cname c" by auto
    with Cons c show ?thesis
      by (cases "cdata a") (simp_all add: num_of_NumCol num_of_ObjCol)
  qed
qed

lemma map_of_mean_df:
  "map_of (mean_df L nf) k = map_option (mean_series L) (map_of nf k)"
  by (induction nf) (auto simp: mean_df_def)

lemma map_of_fillna:
  "map_of (fillna nf val) k =
     map_option (\<lambda>xs. case map_of val k of None \<Rightarrow> xs | Some v \<Rightarrow> fillna_series v xs)
       (map_of nf k)"
  by (induction nf) (auto simp: fillna_def split: option.splits)

lemma fst_fillna: "map fst (fillna nf val) = map fst nf"
  by (induction nf) (auto simp: fillna_def split: option.splits)

text \<open>The filled frame, looked up by the label of a column of the table.\<close>

lemma map_of_filled:
  assumes "distinct (map cname cs)" and "c \<in> set cs"
  shows "map_of (fillna (concat (map num_of cs)) (mean_df L (concat (map num_of cs)))) (cname c) =
     (case cdata c of NumCol xs \<Rightarrow> Some (fillna_series (mean_series L xs) xs) | ObjCol ys \<Rightarrow> None)"
  using map_of_num_of [OF assms]
  by (simp add: map_of_fillna map_of_mean_df split: coldata.splits)

lemma columns_set_column: "k \<in> set (columns d) \<Longrightarrow> columns (set_column d k xs) = columns d"
  by (simp add: set_column_def columns_def o_def if_distrib [of cname] cong: if_cong)

lemma nrows_set_column: "nrows (set_column d k xs) = nrows d"
  by (simp add: set_column_def)

text \<open>Assigning the columns of \<open>val\<close> one after the other, each under its own label.\<close>

lemma fold_set_column:
  "set ks \<subseteq> set (columns d) \<Longrightarrow>
   cols (fold (\<lambda>(k1, k2) d. case map_of val k2 of None \<Rightarrow> d | Some xs \<Rightarrow> set_column d k1 xs)
          (map (\<lambda>k. (k, k)) ks) d) =
   map (\<lambda>c. if cname c \<in> set ks
             then (case map_of val (cname c) of None \<Rightarrow> c | Some xs \<Rightarrow> c\<lparr>cdata := NumCol xs\<rparr>)
             else c) (cols d)"
proof (induction ks arbitrary: d)
  case Nil
  then show ?case by simp
next
  case (Cons k ks)
  let ?d = "case map_of val k of None \<Rightarrow> d | Some xs \<Rightarrow> set_column d k xs"
  from Cons.prems have k: "k \<in> set (columns d)" by simp
  have same: "columns ?d = columns d"
    using k by (simp add: columns_set_column split: option.splits)
  with Cons.prems have "set ks \<subseteq> set (columns ?d)" by simp
  note IH = Cons.IH [OF this]
  have step: "cols ?d =
      map (\<lambda>c. if cname c = k
                then (case map_of val (cname c) of None \<Rightarrow> c | Some xs \<Rightarrow> c\<lparr>cdata := NumCol xs\<rparr>)
                else c) (cols d)"
    using k by (auto simp: set_column_def map_idI split: option.splits)
  show ?case
    by (simp add: IH) (auto simp: step split: option.splits)
qed

lemma nrows_fold_set_column:
  "nrows (fold (\<lambda>(k1, k2) d. case map_of val k2 of None \<Rightarrow> d | Some xs \<Rightarrow> set_column d k1 xs)
          kks d) = nrows d"
  by (induction kks arbitrary: d) (auto simp: nrows_set_column split: option.splits)

lemma select_dtypes_number_subset: "set (select_dtypes_number df) \<subseteq> set (columns df)"
  by (auto simp: select_dtypes_number_def columns_def)

lemma fill_column_cases:
  assumes "distinct (map cname cs)" and "c \<in> set cs"
  shows "(if cname c \<in> set (map cname (filter (\<lambda>c. is_number (cdata c)) cs))
          then (case map_of (fillna (concat (map num_of cs)) (mean_df L (concat (map num_of cs))))
                       (cname c) of
                  None \<Rightarrow> c | Some xs \<Rightarrow> c\<lparr>cdata := NumCol xs\<rparr>)
          else c) = fill_column L c"
proof (cases "cdata c")
  case (NumCol xs)
  with assms(2) have "cname c \<in> set (map cname (filter (\<lambda>c. is_number (cdata c)) cs))"
    by force
  with NumCol show ?thesis
    by (simp add: map_of_filled [OF assms] fill_column_def)
next
  case (ObjCol ys)
  then show ?thesis
    by (simp add: map_of_filled [OF assms] fill_column_def)
qed

lemma cols_fill_missing_values:
  assumes "distinct (columns df)"
  shows "cols (fill_missing_values L df) = map (fill_column L) (cols df)"
proof -
  let ?sub = "concat (map num_of (cols df))"
  let ?filled = "fillna ?sub (mean_df L ?sub)"
  let ?nc = "select_dtypes_number df"
  have d: "distinct (map cname (cols df))"
    using assms by (simp add: columns_def)
  have keys: "map fst ?filled = ?nc"
    by (simp add: fst_fillna fst_num_of select_dtypes_number_def)
  have "fill_missing_values L df = setitem_list df ?nc ?filled"
    by (simp add: fill_missing_values_def Let_def getitem_numeric_all [OF assms])
  also have "\<dots> =
      fold (\<lambda>(k1, k2) d. case map_of ?filled k2 of None \<Rightarrow> d | Some xs \<Rightarrow> set_column d k1 xs)
        (map (\<lambda>k. (k, k)) ?nc) df"
    by (simp only: setitem_list_def keys zip_same_conv_map)
  finally have "cols (fill_missing_values L df) =
      map (\<lambda>c. if cname c \<in> set ?nc
                then (case map_of ?filled (cname c) of
                        None \<Rightarrow> c | Some xs \<Rightarrow> c\<lparr>cdata := NumCol xs\<rparr>)
                else c) (cols df)"
    by (simp only: fold_set_column [OF select_dtypes_number_subset])
  also have "\<dots> = map (fill_column L) (cols df)"
    by (rule map_cong [OF refl]) (simp only: select_dtypes_number_def fill_column_cases [OF d])
  finally show ?thesis .
qed

lemma nrows_fill_missing_values: "nrows (fill_missing_values L df) = nrows df"
  by (simp add: fill_missing_values_def Let_def setitem_list_def nrows_fold_set_column)

lemma dropna_all_missing: "set xs \<subseteq> {None} \<Longrightarrow> dropna xs = []"
  by (induction xs) auto

lemma fillna_series_None: "fillna_series None xs = xs"
  by (induction xs) (auto simp: fillna_series_def split: option.splits)

lemma all_missing_replicate: "set xs \<subseteq> {None} \<Longrightarrow> xs = replicate (length xs) None"
  by (induction xs) auto

text \<open>
  C4. On a table with distinct column names, Fill Missing Values keeps the columns, their
  names and order and the rows. In every numeric column each missing cell becomes the mean
  of the values present in that column of the table as it was before the operation: one
  mean per column, taken by the library in float64 from the original values only, with a
  column whose mean is NaN (no value present) staying missing; the present cells keep their
  values. A text column is returned as it is, missing cells included.
\<close>

theorem fill_missing_values_mean:
  assumes "distinct (columns df)"
  shows "length (cols (fill_missing_values L df)) = length (cols df)
    \<and> nrows (fill_missing_values L df) = nrows df
    \<and> (\<forall>i < length (cols df).
          cname (cols (fill_missing_values L df) ! i) = cname (cols df ! i)
          \<and> (case cdata (cols df ! i) of
                NumCol xs \<Rightarrow>
                  cdata (cols (fill_missing_values L df) ! i) =
                    NumCol (map (\<lambda>x. case x of
                                  None \<Rightarrow> (if dropna xs = [] then None
                                            else np_mean L (dropna xs))
                                | Some v \<Rightarrow> Some v) xs)
              | ObjCol ys \<Rightarrow> cdata (cols (fill_missing_values L df) ! i) = ObjCol ys))"
proof (intro conjI allI impI)
  show "length (cols (fill_missing_values L df)) = length (cols df)"
    by (simp add: cols_fill_missing_values [OF assms])
  show "nrows (fill_missing_values L df) = nrows df"
    by (rule nrows_fill_missing_values)
next
  fix i
  assume i: "i < length (cols df)"
  then have c: "cols (fill_missing_values L df) ! i = fill_column L (cols df ! i)"
    by (simp add: cols_fill_missing_values [OF assms])
  show "cname (cols (fill_missing_values L df) ! i) = cname (cols df ! i)"
    by (cases "cdata (cols df ! i)") (simp_all add: c fill_column_def)
  show "case cdata (cols df ! i) of
          NumCol xs \<Rightarrow>
            cdata (cols (fill_missing_values L df) ! i) =
              NumCol (map (\<lambda>x. case x of
                            None \<Rightarrow> (if dropna xs = [] then None
                                      else np_mean L (dropna xs))
                          | Some v \<Rightarrow> Some v) xs)
        | ObjCol ys \<Rightarrow> cdata (cols (fill_missing_values L df) ! i) = ObjCol ys"
    by (cases "cdata (cols df ! i)")
       (auto simp: c fill_column_def fillna_series_def mean_series_def Let_def
          split: option.splits)
qed

theorem fill_missing_values_mean_witness:
  "distinct (columns all_missing_df)
   \<and> cdata (cols (fill_missing_values exact_library all_missing_df) ! 0) = NumCol [Some 1, Some (3 / 2), Some 2]
   \<and> cdata (cols (fill_missing_values exact_library all_missing_df) ! 1) = ObjCol [Some ''a'', None, Some ''b'']"
proof -
  have d: "distinct (columns all_missing_df)"
    by (simp add: columns_def all_missing_df_def)
  have l: "length (cols all_missing_df) = 3"
    by (simp add: all_missing_df_def)
  from fill_missing_values_mean [OF d]
  have filled: "\<And>i. i < length (cols all_missing_df) \<Longrightarrow>
        (case cdata (cols all_missing_df ! i) of
          NumCol xs \<Rightarrow>
            cdata (cols (fill_missing_values exact_library all_missing_df) ! i) =
              NumCol (map (\<lambda>x. case x of
                            None \<Rightarrow> (if dropna xs = [] then None
                                      else np_mean exact_library (dropna xs))
                          | Some v \<Rightarrow> Some v) xs)
        | ObjCol ys \<Rightarrow> cdata (cols (fill_missing_values exact_library all_missing_df) ! i) = ObjCol ys)"
    by blast
  have "0 < length (cols all_missing_df)" and "1 < length (cols all_missing_df)"
    by (simp_all add: l)
  from filled [OF this(1)] filled [OF this(2)] d show ?thesis
    by (simp add: all_missing_df_def exact_library_def exact_mean_def)
qed

text \<open>
  C10. On a table with distinct column names, a numeric column whose cells are all missing
  comes out of Fill Missing Values as it went in, every cell still missing: its mean is the
  missing marker, and no other value (such as zero) is put in its place.
\<close>

theorem fill_all_missing_column:
  assumes "distinct (columns df)" and "i < length (cols df)"
    and "cdata (cols df ! i) = NumCol xs" and "set xs \<subseteq> {None}"
  shows "cols (fill_missing_values L df) ! i = cols df ! i
    \<and> cdata (cols (fill_missing_values L df) ! i) = NumCol (replicate (length xs) None)"
proof -
  have "mean_series L xs = None"
    using assms(4) by (simp add: mean_series_def dropna_all_missing)
  then have "fill_column L (cols df ! i) = cols df ! i"
    using assms(3) by (simp add: fill_column_def fillna_series_None)
  then have "cols (fill_missing_values L df) ! i = cols df ! i"
    using assms(2) by (simp add: cols_fill_missing_values [OF assms(1)])
  moreover have "NumCol xs = NumCol (replicate (length xs) None)"
    using all_missing_replicate [OF assms(4)] by simp
  ultimately show ?thesis
    using assms(3) by simp
qed

theorem fill_all_missing_column_witness:
  "distinct (columns all_missing_df) \<and> 2 < length (cols all_missing_df)
   \<and> cdata (cols all_missing_df ! 2) = NumCol [None, None, None]
   \<and> set [None, None, None :: real option] \<subseteq> {None}
   \<and> cols (fill_missing_values exact_library all_missing_df) ! 2 =
       \<lparr>cname = Text ''m'', cdata = NumCol [None, None, None]\<rparr>"
proof -
  have d: "distinct (columns all_missing_df)"
    by (simp add: columns_def all_missing_df_def)
  have i: "2 < length (cols all_missing_df)"
    by (simp add: all_missing_df_def)
  have c: "cdata (cols all_missing_df ! 2) = NumCol [None, None, None]"
    by (simp add: all_missing_df_def)
  have m: "set [None, None, None :: real option] \<subseteq> {None}"
    by simp
  have v: "cols all_missing_df ! 2 = \<lparr>cname = Text ''m'', cdata = NumCol [None, None, None]\<rparr>"
    by (simp add: all_missing_df_def)
  from fill_all_missing_column [OF d i c m] d i c m v show ?thesis
    by simp
qed

section \<open>Loading and exporting: properties\<close>

subsection \<open>What the loader establishes\<close>

lemma col_len_infer_column: "col_len (infer_column L fs) = length fs"
  by (simp add: infer_column_def)

lemma typed_ok_infer_column: "typed_ok L (infer_column L fs)"
proof (cases "list_all (\<lambda>s. s = [] \<or> parse_number L s \<noteq> None) fs")
  case True
  then show ?thesis by (simp add: infer_column_def)
next
  case False
  then obtain s where s: "s \<in> set fs" "s \<noteq> []" "parse_number L s = None"
    by (auto simp: list_all_iff)
  then have "Some s \<in> set (map (\<lambda>s. if s = [] then None else Some s) fs)"
    by force
  with s have "list_ex (\<lambda>y. case y of None \<Rightarrow> False | Some s \<Rightarrow> parse_number L s = None)
                 (map (\<lambda>s. if s = [] then None else Some s) fs)"
    unfolding list_ex_iff by (intro bexI [of _ "Some s"]) simp_all
  moreover have "\<not> list_ex (\<lambda>y. y = Some []) (map (\<lambda>s. if s = [] then None else Some s) fs)"
    by (auto simp: list_ex_iff)
  ultimately show ?thesis
    using False by (simp add: infer_column_def)
qed

lemma Load_as_loaded:
  assumes "Load L tag sh = Inr df"
  shows "as_loaded L df"
proof -
  from assms have df: "df =
      \<lparr>cols = map (\<lambda>(j, n). \<lparr>cname = Text n,
                               cdata = infer_column L (map (\<lambda>r. r ! j) (records sh))\<rparr>)
                 (zip [0..<length (header sh)] (mangle_names L (header sh))),
       nrows = length (records sh)\<rparr>"
    by (auto simp: Load_def split: if_splits)
  show ?thesis
    unfolding as_loaded_def list_all_iff
    by (auto simp: df column_ok_def col_len_infer_column typed_ok_infer_column)
qed

subsection \<open>What the cleaning chain and the selection of columns keep\<close>

lemma first_occurrence:
  "i < length rs \<Longrightarrow>
     \<exists>j \<in> set (filter (\<lambda>i. rs ! i \<notin> set (take i rs)) [0..<length rs]). rs ! j = rs ! i"
proof (induction i rule: less_induct)
  case (less i)
  show ?case
  proof (cases "rs ! i \<in> set (take i rs)")
    case False
    with less.prems show ?thesis by auto
  next
    case True
    then obtain k where k: "k < i" "rs ! k = rs ! i"
      using less.prems by (auto simp: in_set_conv_nth)
    with less.prems have "k < length rs" by simp
    from less.IH [OF k(1) this] k(2) show ?thesis by auto
  qed
qed

lemma row_at_cell:
  "row_at df j = row_at df i \<Longrightarrow> c \<in> set (cols df) \<Longrightarrow> cell_at (cdata c) j = cell_at (cdata c) i"
  by (auto simp: row_at_def)

lemma take_data_ok:
  assumes len: "col_len d = n" and ok: "typed_ok L d"
    and idx: "\<forall>j \<in> set idx. j < n"
    and occ: "\<And>i. i < n \<Longrightarrow> \<exists>j \<in> set idx. cell_at d j = cell_at d i"
  shows "col_len (take_data idx d) = length idx \<and> typed_ok L (take_data idx d)"
proof (cases d)
  case (NumCol xs)
  then show ?thesis by simp
next
  case (ObjCol ys)
  with len have n: "length ys = n" by simp
  from ok ObjCol obtain s where s: "Some s \<in> set ys" "parse_number L s = None"
    by (auto simp: list_ex_iff split: option.splits)
  then obtain i where i: "i < n" "ys ! i = Some s"
    using n by (auto simp: in_set_conv_nth)
  from occ [OF i(1)] ObjCol i(2) obtain j where j: "j \<in> set idx" "ys ! j = Some s"
    by auto
  then have "Some s \<in> set (map (\<lambda>i. ys ! i) idx)"
    by force
  with s(2) have w: "list_ex (\<lambda>y. case y of None \<Rightarrow> False | Some s \<Rightarrow> parse_number L s = None)
                       (map (\<lambda>i. ys ! i) idx)"
    unfolding list_ex_iff by (intro bexI [of _ "Some s"]) simp_all
  have "set (map (\<lambda>i. ys ! i) idx) \<subseteq> set ys"
    using idx n by auto
  moreover from ok ObjCol have "Some [] \<notin> set ys"
    by (auto simp: list_ex_iff)
  ultimately have "\<not> list_ex (\<lambda>y. y = Some []) (map (\<lambda>i. ys ! i) idx)"
    unfolding list_ex_iff by blast
  with w ObjCol show ?thesis by simp
qed

lemma drop_duplicates_as_loaded:
  assumes "as_loaded L df"
  shows "as_loaded L (drop_duplicates df)"
proof (cases "empty_df df")
  case True
  with assms show ?thesis by (simp add: drop_duplicates_def)
next
  case False
  define rs where "rs = rows_of df"
  define idx where "idx = filter (\<lambda>i. rs ! i \<notin> set (take i rs)) [0..<length rs]"
  have len: "length rs = nrows df"
    by (simp add: rs_def rows_of_def)
  have d: "drop_duplicates df = take_rows idx df"
    using False
    by (simp add: drop_duplicates_def getitem_mask_def duplicated_def nonzero_not_duplicated
        idx_def rs_def)
  have idx: "\<forall>j \<in> set idx. j < nrows df"
    by (auto simp: idx_def len)
  have "column_ok L (length idx) (c\<lparr>cdata := take_data idx (cdata c)\<rparr>)"
    if c: "c \<in> set (cols df)" for c
  proof -
    from assms c have ok: "col_len (cdata c) = nrows df" "typed_ok L (cdata c)" "is_text (cname c)"
      by (auto simp: as_loaded_def list_all_iff column_ok_def)
    have "\<exists>j \<in> set idx. cell_at (cdata c) j = cell_at (cdata c) i" if i: "i < nrows df" for i
    proof -
      from i have "i < length rs" by (simp add: len)
      from first_occurrence [OF this] obtain j where j: "j \<in> set idx" "rs ! j = rs ! i"
        by (auto simp: idx_def)
      with idx have "j < nrows df" by simp
      with j(2) i have "row_at df j = row_at df i"
        by (simp add: rs_def rows_of_def)
      from row_at_cell [OF this c] j(1) show ?thesis by blast
    qed
    from take_data_ok [OF ok(1) ok(2) idx this] ok(3) show ?thesis
      by (simp add: column_ok_def)
  qed
  then show ?thesis
    by (simp add: d as_loaded_def take_rows_def list_all_iff)
qed

lemma set_column_as_loaded:
  assumes "as_loaded L d" and "length xs = nrows d" and "is_text k"
  shows "as_loaded L (set_column d k xs)"
  using assms by (auto simp: as_loaded_def set_column_def list_all_iff column_ok_def)

lemma fold_set_column_as_loaded:
  assumes "as_loaded L d"
    and "\<forall>(k, xs) \<in> set val. length xs = nrows d"
    and "\<forall>(k1, k2) \<in> set kks. is_text k1"
  shows "as_loaded L
     (fold (\<lambda>(k1, k2) d. case map_of val k2 of None \<Rightarrow> d | Some xs \<Rightarrow> set_column d k1 xs) kks d)"
  using assms
proof (induction kks arbitrary: d)
  case Nil
  then show ?case by simp
next
  case (Cons kk kks)
  obtain k1 k2 where kk: "kk = (k1, k2)" by (cases kk)
  let ?d = "case map_of val k2 of None \<Rightarrow> d | Some xs \<Rightarrow> set_column d k1 xs"
  have n: "nrows ?d = nrows d"
    by (simp add: set_column_def split: option.splits)
  have "as_loaded L ?d"
  proof (cases "map_of val k2")
    case None
    with Cons.prems show ?thesis by simp
  next
    case (Some xs)
    then have "(k2, xs) \<in> set val" by (rule map_of_SomeD)
    with Cons.prems(2) have "length xs = nrows d" by auto
    moreover from Cons.prems(3) kk have "is_text k1" by simp
    ultimately show ?thesis
      using Cons.prems(1) Some by (simp add: set_column_as_loaded)
  qed
  moreover from Cons.prems(2) n have "\<forall>(k, xs) \<in> set val. length xs = nrows ?d" by simp
  moreover from Cons.prems(3) have "\<forall>(k1, k2) \<in> set kks. is_text k1" by simp
  ultimately have "as_loaded L
     (fold (\<lambda>(k1, k2) d. case map_of val k2 of None \<Rightarrow> d | Some xs \<Rightarrow> set_column d k1 xs) kks ?d)"
    by (rule Cons.IH)
  then show ?case by (simp add: kk)
qed

lemma getitem_numeric_lengths:
  assumes "as_loaded L df" and "(k, xs) \<in> set (getitem_numeric df keys)"
  shows "length xs = nrows df"
proof -
  from assms(2) obtain c where c: "c \<in> set (cols df)" "cdata c = NumCol xs"
    by (auto simp: getitem_numeric_def split: coldata.splits if_splits)
  with assms(1) show ?thesis
    by (auto simp: as_loaded_def list_all_iff column_ok_def)
qed

lemma fillna_lengths:
  "(k, ys) \<in> set (fillna nf val) \<Longrightarrow> \<exists>xs. (k, xs) \<in> set nf \<and> length ys = length xs"
  by (auto simp: fillna_def fillna_series_def split: option.splits)

lemma fill_missing_values_as_loaded:
  assumes "as_loaded L df"
  shows "as_loaded L (fill_missing_values L df)"
proof -
  let ?nc = "select_dtypes_number df"
  let ?sub = "getitem_numeric df ?nc"
  let ?filled = "fillna ?sub (mean_df L ?sub)"
  have "\<forall>(k, ys) \<in> set ?filled. length ys = nrows df"
    using fillna_lengths getitem_numeric_lengths [OF assms] by fastforce
  moreover have "\<forall>(k1, k2) \<in> set (zip ?nc (map fst ?filled)). is_text k1"
  proof -
    have "set ?nc \<subseteq> set (columns df)"
      by (rule select_dtypes_number_subset)
    with assms have "\<forall>k \<in> set ?nc. is_text k"
      by (auto simp: as_loaded_def list_all_iff column_ok_def columns_def)
    then show ?thesis
      by (auto dest: set_zip_leftD)
  qed
  ultimately show ?thesis
    unfolding fill_missing_values_def Let_def setitem_list_def
    by (intro fold_set_column_as_loaded assms)
qed

lemma standardize_columns_as_loaded:
  assumes "standardize_columns L df = Inr df'" and "as_loaded L df"
  shows "as_loaded L df'"
proof -
  from assms(1) have
    "df' = df\<lparr>cols := map (\<lambda>c. c\<lparr>cname := standardize_label L (cname c)\<rparr>) (cols df)\<rparr>"
    by (auto simp: standardize_columns_def split: if_splits)
  moreover have "is_text l \<Longrightarrow> is_text (standardize_label L l)" for l
    by (cases l) simp_all
  ultimately show ?thesis
    using assms(2) by (auto simp: as_loaded_def list_all_iff column_ok_def)
qed

lemma drop_columns_as_loaded:
  assumes "drop_columns df labels = Inr df'" and "as_loaded L df"
  shows "as_loaded L df'"
  using assms
  by (auto simp: drop_columns_def Let_def as_loaded_def list_all_iff split: if_splits)

lemma getitem_list_as_loaded:
  assumes "getitem_list df keys = Inr df'" and "as_loaded L df"
  shows "as_loaded L df'"
  using assms
  by (auto simp: getitem_list_def Let_def as_loaded_def list_all_iff split: if_splits)

lemma apply_cleaning_as_loaded:
  assumes "apply_cleaning L opts rm df = Inr df'" and "as_loaded L df"
  shows "as_loaded L df'"
proof -
  define df1 where "df1 = (if ''Remove Duplicates'' \<in> set opts then drop_duplicates df else df)"
  define df2 where
    "df2 = (if ''Fill Missing Values'' \<in> set opts then fill_missing_values L df1 else df1)"
  have 1: "as_loaded L df1"
    using assms(2) by (simp add: df1_def drop_duplicates_as_loaded)
  then have 2: "as_loaded L df2"
    by (simp add: df2_def fill_missing_values_as_loaded)
  have "(case (if ''Standardize Column Names'' \<in> set opts
               then standardize_columns L df2 else Inr df2) of
           Inl e \<Rightarrow> Inl e
         | Inr df3 \<Rightarrow> (if ''Remove Columns'' \<in> set opts then drop_columns df3 rm else Inr df3))
        = Inr df'"
    using assms(1) unfolding apply_cleaning_def Let_def df1_def df2_def .
  then obtain df3 where
    3: "(if ''Standardize Column Names'' \<in> set opts then standardize_columns L df2 else Inr df2)
          = Inr df3"
    and 4: "(if ''Remove Columns'' \<in> set opts then drop_columns df3 rm else Inr df3) = Inr df'"
    by (cases "if ''Standardize Column Names'' \<in> set opts
               then standardize_columns L df2 else Inr df2") simp_all
  from 3 2 have "as_loaded L df3"
    by (auto dest: standardize_columns_as_loaded split: if_splits)
  with 4 show ?thesis
    by (auto dest: drop_columns_as_loaded split: if_splits)
qed

subsection \<open>Writing a column and reading it back\<close>

lemma map_nth_upt: "map (\<lambda>i. f (xs ! i)) [0..<length xs] = map f xs"
proof -
  have "map (\<lambda>i. f (xs ! i)) [0..<length xs] = map f (map (\<lambda>i. xs ! i) [0..<length xs])"
    by (simp add: o_def)
  then show ?thesis
    by (simp only: map_nth)
qed

lemma dropna_present: "Some v \<in> set xs \<Longrightarrow> v \<in> set (dropna xs)"
  by (induction xs rule: dropna.induct) auto

lemma infer_numbers_back:
  assumes "list_all (prints_back L) (dropna xs)"
  shows "\<exists>ys. infer_column L (map (\<lambda>x. cell_text L (NumCell x)) xs) = NumCol ys
             \<and> list_all2 (rel_option (within_tolerance L)) xs ys"
proof -
  let ?fs = "map (\<lambda>x. cell_text L (NumCell x)) xs"
  let ?ys = "map (\<lambda>s. if s = [] then None else parse_number L s) ?fs"
  have pb: "prints_back L v" if "Some v \<in> set xs" for v
    using assms dropna_present [OF that] by (simp add: list_all_iff)
  have "list_all (\<lambda>s. s = [] \<or> parse_number L s \<noteq> None) ?fs"
    unfolding list_all_iff
  proof
    fix s
    assume "s \<in> set ?fs"
    then obtain x where x: "x \<in> set xs" "s = cell_text L (NumCell x)" by auto
    show "s = [] \<or> parse_number L s \<noteq> None"
    proof (cases x)
      case None
      with x show ?thesis by simp
    next
      case (Some v)
      with x pb [of v] show ?thesis
        by (auto simp: prints_back_def split: option.splits)
    qed
  qed
  then have "infer_column L ?fs = NumCol ?ys"
    by (simp add: infer_column_def)
  moreover have "list_all2 (rel_option (within_tolerance L)) xs ?ys"
    unfolding list_all2_conv_all_nth
  proof (intro conjI allI impI)
    show "length xs = length ?ys" by simp
  next
    fix i
    assume i: "i < length xs"
    show "rel_option (within_tolerance L) (xs ! i) (?ys ! i)"
    proof (cases "xs ! i")
      case None
      with i show ?thesis by simp
    next
      case (Some v)
      with i have "Some v \<in> set xs" by (metis nth_mem)
      from pb [OF this] Some i show ?thesis
        by (auto simp: prints_back_def split: option.splits)
    qed
  qed
  ultimately show ?thesis by blast
qed

lemma infer_texts_back:
  assumes "typed_ok L (ObjCol ys)"
  shows "infer_column L (map (\<lambda>y. cell_text L (ObjCell y)) ys) = (ObjCol ys :: 'a coldata)"
proof -
  let ?fs = "map (\<lambda>y. cell_text L (ObjCell y)) ys"
  from assms have ne: "Some [] \<notin> set ys"
    by (auto simp: list_ex_iff)
  from assms obtain s where s: "Some s \<in> set ys" "parse_number L s = None"
    by (auto simp: list_ex_iff split: option.splits)
  with ne have "s \<noteq> []" by auto
  moreover from s(1) have "s \<in> set ?fs" by force
  ultimately have "\<not> list_all (\<lambda>s. s = [] \<or> parse_number L s \<noteq> None) ?fs"
    using s(2) by (auto simp: list_all_iff)
  then have "infer_column L ?fs = ObjCol (map (\<lambda>s. if s = [] then None else Some s) ?fs)"
    by (simp add: infer_column_def)
  moreover have "map (\<lambda>s. if s = [] then None else Some s) ?fs = ys"
  proof -
    have "(if cell_text L (ObjCell y) = [] then None else Some (cell_text L (ObjCell y))) = y"
      if "y \<in> set ys" for y
    proof (cases y)
      case None
      then show ?thesis by simp
    next
      case (Some s)
      with that ne have "s \<noteq> []" by auto
      with Some show ?thesis by simp
    qed
    then have "map ((\<lambda>s. if s = [] then None else Some s) \<circ> (\<lambda>y. cell_text L (ObjCell y))) ys
        = ys"
      by (intro map_idI) simp
    then show ?thesis
      by (simp only: map_map)
  qed
  ultimately show ?thesis by simp
qed

text \<open>The fields of one column in the exported records, read back as a column.\<close>

lemma infer_column_back:
  assumes "col_len d = n" and "typed_ok L d" and "data_prints_back L d"
  shows "same_data L d (infer_column L (map (\<lambda>i. cell_text L (cell_at d i)) [0..<n]))"
proof (cases d)
  case (NumCol xs)
  have e: "map (\<lambda>i. cell_text L (cell_at (NumCol xs) i)) [0..<n] =
      map (\<lambda>x. cell_text L (NumCell x)) xs"
    using assms(1) map_nth_upt [of "\<lambda>x. cell_text L (NumCell x)" xs] by (simp add: NumCol)
  from assms(3) have "list_all (prints_back L) (dropna xs)"
    by (simp add: NumCol)
  from infer_numbers_back [OF this] obtain ys where
    "infer_column L (map (\<lambda>x. cell_text L (NumCell x)) xs) = NumCol ys"
    "list_all2 (rel_option (within_tolerance L)) xs ys"
    by blast
  then show ?thesis
    unfolding NumCol e by simp
next
  case (ObjCol ys)
  have e: "map (\<lambda>i. cell_text L (cell_at (ObjCol ys) i)) [0..<n] =
      map (\<lambda>y. cell_text L (ObjCell y)) ys"
    using assms(1) map_nth_upt [of "\<lambda>y. cell_text L (ObjCell y)" ys] by (simp add: ObjCol)
  from assms(2) have t: "typed_ok L (ObjCol ys)"
    unfolding ObjCol .
  show ?thesis
    unfolding ObjCol e infer_texts_back [OF t] by simp
qed

lemma text_label: "is_text l \<Longrightarrow> Text (label_text l) = l"
  by (cases l) simp_all

lemma distinct_label_texts:
  assumes "distinct ls" and "\<forall>l \<in> set ls. is_text l"
  shows "distinct (map label_text ls)"
proof -
  have "inj_on label_text (set ls)"
  proof (rule inj_onI)
    fix a b
    assume a: "a \<in> set ls" and b: "b \<in> set ls" and eq: "label_text a = label_text b"
    from a assms(2) have "a = Text (label_text a)" by (simp add: text_label)
    also from eq have "\<dots> = Text (label_text b)" by simp
    also from b assms(2) have "\<dots> = b" by (simp add: text_label)
    finally show "a = b" .
  qed
  with assms(1) show ?thesis by (simp add: distinct_map)
qed

text \<open>
  A table typed as the loader types it, with one column or more, with distinct names,
  comes back from a file of either format, when its numbers are written so that they
  parse back and the loader takes its header row, which has no name twice, as it stands.
\<close>

lemma round_trip_as_loaded:
  assumes ok: "as_loaded L T" and dist: "distinct (columns T)" and ne: "cols T \<noteq> []"
    and tag: "tag = ''csv'' \<or> tag = ''xlsx''"
    and mangle: "distinct (map label_text (columns T)) \<longrightarrow>
        mangle_names L (map label_text (columns T)) = map label_text (columns T)"
    and nums: "numbers_print_back L T"
  shows "\<exists>sh U. Export L T tag = Inr sh \<and> Load L tag sh = Inr U \<and> same_table L T U"
proof -
  define m where "m = length (cols T)"
  define hdr where "hdr = map label_text (columns T)"
  define recs where "recs = map (map (cell_text L)) (rows_of T)"
  define U :: "'a dataframe" where "U =
      \<lparr>cols = map (\<lambda>(j, n). \<lparr>cname = Text n, cdata = infer_column L (map (\<lambda>r. r ! j) recs)\<rparr>)
                 (zip [0..<m] hdr),
       nrows = nrows T\<rparr>"
  have colok: "col_len (cdata c) = nrows T \<and> typed_ok L (cdata c) \<and> is_text (cname c)
               \<and> data_prints_back L (cdata c)"
    if "c \<in> set (cols T)" for c
    using ok nums that by (auto simp: as_loaded_def numbers_print_back_def list_all_iff column_ok_def)
  have lh: "length hdr = m"
    by (simp add: hdr_def m_def columns_def)
  have ex: "Export L T tag = Inr \<lparr>header = hdr, records = recs\<rparr>"
    using tag by (auto simp: Export_def hdr_def recs_def)
  have "distinct hdr"
    unfolding hdr_def using dist colok
    by (intro distinct_label_texts) (auto simp: columns_def)
  with mangle have mh: "mangle_names L hdr = hdr" by (simp add: hdr_def)
  have widths: "\<not> list_ex (\<lambda>r. length r \<noteq> length hdr) recs"
    by (auto simp: list_ex_iff recs_def rows_of_def row_at_def lh m_def)
  have "hdr \<noteq> []"
    using ne by (simp add: hdr_def columns_def)
  with widths tag mh have ld: "Load L tag \<lparr>header = hdr, records = recs\<rparr> = Inr U"
    by (auto simp: Load_def U_def lh recs_def rows_of_def)
  have colU: "cols U ! j =
      \<lparr>cname = cname (cols T ! j),
       cdata = infer_column L (map (\<lambda>i. cell_text L (cell_at (cdata (cols T ! j)) i))
                                   [0..<nrows T])\<rparr>"
    if j: "j < m" for j
  proof -
    from j have "cols T ! j \<in> set (cols T)" by (simp add: m_def)
    from colok [OF this] have "Text (hdr ! j) = cname (cols T ! j)"
      using j by (simp add: hdr_def columns_def m_def text_label)
    moreover have "map (\<lambda>r. r ! j) recs =
        map (\<lambda>i. cell_text L (cell_at (cdata (cols T ! j)) i)) [0..<nrows T]"
      using j by (simp add: recs_def rows_of_def row_at_def m_def)
    ultimately show ?thesis
      using j by (simp add: U_def lh)
  qed
  have lU: "length (cols U) = m"
    by (simp add: U_def lh)
  have "columns T = columns U"
    unfolding columns_def
    by (rule nth_equalityI) (simp_all add: lU m_def [symmetric] colU)
  moreover have "list_all2 (same_data L) (map cdata (cols T)) (map cdata (cols U))"
    unfolding list_all2_conv_all_nth
  proof (intro conjI allI impI)
    show "length (map cdata (cols T)) = length (map cdata (cols U))"
      by (simp add: lU m_def)
  next
    fix j
    assume "j < length (map cdata (cols T))"
    then have j: "j < m" by (simp add: m_def)
    then have "cols T ! j \<in> set (cols T)" by (simp add: m_def)
    from colok [OF this] have
      "same_data L (cdata (cols T ! j))
         (infer_column L (map (\<lambda>i. cell_text L (cell_at (cdata (cols T ! j)) i)) [0..<nrows T]))"
      by (intro infer_column_back) simp_all
    with j show "same_data L (map cdata (cols T) ! j) (map cdata (cols U) ! j)"
      by (simp add: colU lU m_def [symmetric])
  qed
  moreover have "nrows T = nrows U"
    by (simp add: U_def)
  ultimately have "same_table L T U"
    by (simp add: same_table_def)
  with ex ld show ?thesis by blast
qed

subsection \<open>The round trip\<close>

text \<open>
  C1, as the pipeline has it. The claim that every table produced by the pipeline comes
  back from its exported file does not hold. With the header "A B", "A_B", Standardize
  Column Names selected and the selection of columns left at its default, the pipeline
  produces a table in which every column is named "a_b"; the loader names the columns of
  the exported file "a_b", "a_b.1", "a_b.2", "a_b.3", so the table that comes back is
  another one. With every column deselected the pipeline produces a table without columns,
  and the exported file does not load at all.
\<close>

theorem round_trip_counterexample:
  "Load exact_library ''csv'' colliding_sheet = Inr colliding_df
   \<and> apply_cleaning exact_library [''Standardize Column Names''] [] colliding_df
       = Inr collided_df
   \<and> getitem_list collided_df (columns collided_df) = Inr selected_df
   \<and> Export exact_library selected_df ''csv''
       = Inr \<lparr>header = [''a_b'', ''a_b'', ''a_b'', ''a_b''],
              records = [[''1'', ''2'', ''1'', ''2'']]\<rparr>
   \<and> Load exact_library ''csv''
         \<lparr>header = [''a_b'', ''a_b'', ''a_b'', ''a_b''],
          records = [[''1'', ''2'', ''1'', ''2'']]\<rparr>
       = Inr reloaded_df
   \<and> \<not> same_table exact_library selected_df reloaded_df
   \<and> apply_cleaning exact_library [] [] colliding_df = Inr colliding_df
   \<and> getitem_list colliding_df [] = Inr \<lparr>cols = [], nrows = 1\<rparr>
   \<and> Export exact_library \<lparr>cols = [], nrows = 1\<rparr> ''csv''
       = Inr \<lparr>header = [], records = [[]]\<rparr>
   \<and> Load exact_library ''csv'' \<lparr>header = [], records = [[]]\<rparr>
       = (Inl ParseError :: error + real dataframe)"
  by code_simp

text \<open>
  C1, amended. A table that the pipeline produces (loaded from a file of either format,
  cleaned, its columns selected) and that has at least one column and no column name twice
  comes back from its exported file, in CSV and in xlsx: loading the export succeeds and
  gives a table with the same column names and number of rows, missing cells where the
  table has them, the same texts, and numbers within the tolerance. This is so whenever
  every number of the table is written as a field that parses back within the tolerance,
  and the loader takes a header row in which no name is repeated as it stands.
\<close>

theorem export_load_round_trip:
  assumes "Load L tag0 sh0 = Inr df0"
    and "apply_cleaning L opts rm df0 = Inr df1"
    and "getitem_list df1 keep = Inr T"
    and "distinct (columns T)" and "cols T \<noteq> []"
    and "tag = ''csv'' \<or> tag = ''xlsx''"
    and "distinct (map label_text (columns T)) \<longrightarrow>
         mangle_names L (map label_text (columns T)) = map label_text (columns T)"
    and "numbers_print_back L T"
  shows "\<exists>sh U. Export L T tag = Inr sh \<and> Load L tag sh = Inr U \<and> same_table L T U"
proof -
  from assms(1) have "as_loaded L df0"
    by (rule Load_as_loaded)
  with assms(2) have "as_loaded L df1"
    by (rule apply_cleaning_as_loaded)
  with assms(3) have "as_loaded L T"
    by (rule getitem_list_as_loaded)
  then show ?thesis
    using assms(4-8) by (rule round_trip_as_loaded)
qed

theorem export_load_round_trip_witness:
  "Load exact_library ''csv'' scenario_sheet = Inr scenario_df
   \<and> apply_cleaning exact_library [''Remove Duplicates''] [] scenario_df = Inr deduplicated_df
   \<and> getitem_list deduplicated_df [Text ''s'', Text ''n''] = Inr kept_df
   \<and> distinct (columns kept_df) \<and> cols kept_df \<noteq> []
   \<and> mangle_names exact_library (map label_text (columns kept_df))
       = map label_text (columns kept_df)
   \<and> numbers_print_back exact_library kept_df
   \<and> (\<exists>sh U. Export exact_library kept_df ''xlsx'' = Inr sh
              \<and> Load exact_library ''xlsx'' sh = Inr U
              \<and> same_table exact_library kept_df U)
   \<and> Export exact_library kept_df ''xlsx''
       = Inr \<lparr>header = [''s'', ''n''], records = [[''a'', ''1''], ['''', ''2'']]\<rparr>
   \<and> Load exact_library ''xlsx''
         \<lparr>header = [''s'', ''n''], records = [[''a'', ''1''], ['''', ''2'']]\<rparr>
       = Inr kept_df"
proof -
  have l: "Load exact_library ''csv'' scenario_sheet = Inr scenario_df"
    by code_simp
  have c: "apply_cleaning exact_library [''Remove Duplicates''] [] scenario_df
           = Inr deduplicated_df"
    by code_simp
  have g: "getitem_list deduplicated_df [Text ''s'', Text ''n''] = Inr kept_df"
    by code_simp
  have d: "distinct (columns kept_df)" and n: "cols kept_df \<noteq> []"
    by (simp_all add: columns_def kept_df_def)
  have t: "''xlsx'' = ''csv'' \<or> ''xlsx'' = ''xlsx''"
    by simp
  have m: "mangle_names exact_library (map label_text (columns kept_df))
           = map label_text (columns kept_df)"
    by code_simp
  then have m': "distinct (map label_text (columns kept_df)) \<longrightarrow>
        mangle_names exact_library (map label_text (columns kept_df))
          = map label_text (columns kept_df)"
    by simp
  have p: "numbers_print_back exact_library kept_df"
    by code_simp
  have e: "Export exact_library kept_df ''xlsx''
       = Inr \<lparr>header = [''s'', ''n''], records = [[''a'', ''1''], ['''', ''2'']]\<rparr>"
    by code_simp
  have r: "Load exact_library ''xlsx''
         \<lparr>header = [''s'', ''n''], records = [[''a'', ''1''], ['''', ''2'']]\<rparr>
       = Inr kept_df"
    by code_simp
  from export_load_round_trip [OF l c g d n t m' p] l c g d n m p e r show ?thesis
    by blast
qed

end
